theory Spec2Isabelle
  imports Main "HOL-Library.Sublist" "HOL-Library.AList" "HOL-Library.Char_ord"
    "HOL-Library.List_Lexorder"
begin

section \<open>Python values\<close>

text \<open>
  The scripts are Python. A Python \<open>str\<close> is modelled by \<^typ>\<open>string\<close>, one
  \<^typ>\<open>char\<close> per character (characters from code point 256 up are not represented).
  A value that came out of \<open>json.load\<close> or goes into \<open>json.dump\<close> is a \<open>json\<close>;
  a \<open>dict\<close> is an association list in insertion order, read with \<^const>\<open>map_of\<close>
  and written with \<^const>\<open>AList.update\<close>. Numbers are never inspected by the code
  modelled here, so they are integers.
\<close>

datatype json =
    JNull
  | JBool bool
  | JNum int
  | JStr string
  | JArr "json list"
  | JObj "(string \<times> json) list"

text \<open>An exception: its class and \<open>str(e)\<close>.\<close>

datatype kind =
    FileNotFoundError
  | PermissionError
  | OSError
  | JSONDecodeError
  | RequestException
  | TypeError
  | AttributeError
  | KeyError
  | OtherError

datatype exn = Raised kind string

fun kind_of :: "exn \<Rightarrow> kind" where
  "kind_of (Raised k m) = k"

fun str_of :: "exn \<Rightarrow> string" where
  "str_of (Raised k m) = m"

subsection \<open>\<open>str.find\<close>, \<open>str.rfind\<close>, slices, \<open>str.strip\<close>, \<open>str.replace\<close>\<close>

text \<open>Index of the first occurrence of \<open>sub\<close> in a text, if there is one.\<close>

fun index_of :: "string \<Rightarrow> string \<Rightarrow> nat option" where
  "index_of sub [] = (if sub = [] then Some 0 else None)"
| "index_of sub (c # cs) =
     (if prefix sub (c # cs) then Some 0 else map_option Suc (index_of sub cs))"

text \<open>Index of the last occurrence.\<close>

fun rindex_of :: "string \<Rightarrow> string \<Rightarrow> nat option" where
  "rindex_of sub [] = (if sub = [] then Some 0 else None)"
| "rindex_of sub (c # cs) =
     (case rindex_of sub cs of
        Some i \<Rightarrow> Some (Suc i)
      | None \<Rightarrow> if prefix sub (c # cs) then Some 0 else None)"

text \<open>A slice bound: negative bounds count from the end, and bounds are clipped.\<close>

definition clip :: "nat \<Rightarrow> int \<Rightarrow> nat" where
  "clip n i = (if i < 0 then nat (max 0 (int n + i)) else min (nat i) n)"

text \<open>\<open>xs[a:b]\<close>, each bound optional.\<close>

definition py_slice :: "'a list \<Rightarrow> int option \<Rightarrow> int option \<Rightarrow> 'a list" where
  "py_slice xs a b =
     (let lo = (case a of None \<Rightarrow> 0 | Some i \<Rightarrow> clip (length xs) i);
          hi = (case b of None \<Rightarrow> length xs | Some j \<Rightarrow> clip (length xs) j)
      in take (hi - lo) (drop lo xs))"

text \<open>\<open>text.find(sub, start)\<close>: \<open>-1\<close> when there is no occurrence from \<open>start\<close> on.\<close>

definition py_find :: "string \<Rightarrow> string \<Rightarrow> int \<Rightarrow> int" where
  "py_find text sub start =
     (let s = (if start < 0 then nat (max 0 (int (length text) + start)) else nat start)
      in if length text < s then - 1
         else (case index_of sub (drop s text) of
                 None \<Rightarrow> - 1
               | Some i \<Rightarrow> int (s + i)))"

definition py_rfind :: "string \<Rightarrow> string \<Rightarrow> int" where
  "py_rfind text sub = (case rindex_of sub text of None \<Rightarrow> - 1 | Some i \<Rightarrow> int i)"

text \<open>
  The characters \<open>str.strip()\<close> removes, among the code points below 256: tab, line feed,
  vertical tab, form feed, carriage return, the separators 28 to 31, space, 133 and 160.
\<close>

definition is_space :: "char \<Rightarrow> bool" where
  "is_space c =
     (let n = (of_char c :: nat)
      in (9 \<le> n \<and> n \<le> 13) \<or> (28 \<le> n \<and> n \<le> 32) \<or> n = 133 \<or> n = 160)"

definition strip_by :: "(char \<Rightarrow> bool) \<Rightarrow> string \<Rightarrow> string" where
  "strip_by p s = rev (dropWhile p (rev (dropWhile p s)))"

definition strip :: "string \<Rightarrow> string" where
  "strip s = strip_by is_space s"

definition strip_quote :: "string \<Rightarrow> string" where
  "strip_quote s = strip_by (\<lambda>c. c = CHR 0x22) s"

text \<open>
  \<open>text.replace(old, new)\<close> for a non-empty \<open>old\<close>: occurrences are replaced from the
  left and do not overlap. The counter is the number of characters of a matched
  occurrence still to be skipped.
\<close>

fun replace_from :: "string \<Rightarrow> string \<Rightarrow> nat \<Rightarrow> string \<Rightarrow> string" where
  "replace_from old new k [] = []"
| "replace_from old new (Suc k) (c # cs) = replace_from old new k cs"
| "replace_from old new 0 (c # cs) =
     (if prefix old (c # cs) then new @ replace_from old new (length old - 1) cs
      else c # replace_from old new 0 cs)"

definition replace :: "string \<Rightarrow> string \<Rightarrow> string \<Rightarrow> string" where
  "replace old new text = replace_from old new 0 text"

subsection \<open>Dictionaries, truth values, membership\<close>

definition keys :: "(string \<times> json) list \<Rightarrow> string set" where
  "keys d = fst ` set d"

text \<open>\<open>bool(v)\<close>.\<close>

fun truthy :: "json \<Rightarrow> bool" where
  "truthy JNull = False"
| "truthy (JBool b) = b"
| "truthy (JNum n) = (n \<noteq> 0)"
| "truthy (JStr s) = (s \<noteq> [])"
| "truthy (JArr xs) = (xs \<noteq> [])"
| "truthy (JObj d) = (d \<noteq> [])"

text \<open>
  \<open>k in v\<close> for a string \<open>k\<close>: a key of a dict, an element of a list, a substring of a
  string; \<open>None\<close>, booleans and numbers raise \<open>TypeError\<close>.
\<close>

definition not_iterable :: exn where
  "not_iterable = Raised TypeError ''argument is not iterable''"

fun py_in :: "string \<Rightarrow> json \<Rightarrow> exn + bool" where
  "py_in k (JObj d) = Inr (k \<in> keys d)"
| "py_in k (JArr xs) = Inr (JStr k \<in> set xs)"
| "py_in k (JStr s) = Inr (index_of k s \<noteq> None)"
| "py_in k v = Inl not_iterable"

text \<open>\<open>v[k]\<close> for a string \<open>k\<close>: only a dict can be indexed by a string.\<close>

fun py_item :: "json \<Rightarrow> string \<Rightarrow> exn + json" where
  "py_item (JObj d) k =
     (case map_of d k of None \<Rightarrow> Inl (Raised KeyError k) | Some v \<Rightarrow> Inr v)"
| "py_item v k = Inl (Raised TypeError ''indices must be integers'')"

text \<open>\<open>v.get(k, default)\<close>: only a dict has the method.\<close>

fun py_get :: "json \<Rightarrow> string \<Rightarrow> json \<Rightarrow> exn + json" where
  "py_get (JObj d) k dflt = Inr (case map_of d k of None \<Rightarrow> dflt | Some v \<Rightarrow> v)"
| "py_get v k dflt = Inl (Raised AttributeError ''object has no attribute get'')"

text \<open>\<open>all(k in v for k in ks)\<close>: stops at the first key that is not there.\<close>

fun all_in :: "string list \<Rightarrow> json \<Rightarrow> exn + bool" where
  "all_in [] v = Inr True"
| "all_in (k # ks) v =
     (case py_in k v of
        Inl e \<Rightarrow> Inl e
      | Inr b \<Rightarrow> if b then all_in ks v else Inr False)"

section \<open>combineResults.py\<close>

definition required_keys :: "string list" where
  "required_keys = [''question'', ''options'', ''correct_answer'', ''explanation'']"

fun is_dict :: "json \<Rightarrow> bool" where
  "is_dict (JObj d) = True"
| "is_dict v = False"

text \<open>
  \<open>is_valid_result(result)\<close>; \<open>result\<close> is what \<open>load_json_file\<close> returned, \<open>None\<close>
  for a file that could not be read.
\<close>

definition is_valid_result :: "json \<Rightarrow> exn + bool" where
  "is_valid_result result =
     (if \<not> truthy result then Inr False
      else case py_in ''analysis'' result of
        Inl e \<Rightarrow> Inl e
      | Inr False \<Rightarrow> Inr False
      | Inr True \<Rightarrow>
         (case py_item result ''analysis'' of
            Inl e \<Rightarrow> Inl e
          | Inr analysis \<Rightarrow>
             (case (if is_dict analysis then py_in ''error'' analysis else Inr False) of
                Inl e \<Rightarrow> Inl e
              | Inr True \<Rightarrow> Inr False
              | Inr False \<Rightarrow> all_in required_keys analysis)))"

text \<open>
  The specification's wording of validity: the result contains an analysis, the analysis
  carries no error indicator, and every required field is present in it.
\<close>

definition valid_by_spec :: "json \<Rightarrow> bool" where
  "valid_by_spec result =
     (case result of
        JObj d \<Rightarrow>
          (case map_of d ''analysis'' of
             Some (JObj a) \<Rightarrow> ''error'' \<notin> keys a \<and> (\<forall>k \<in> set required_keys. k \<in> keys a)
           | _ \<Rightarrow> False)
      | _ \<Rightarrow> False)"

text \<open>
  A persisted extraction result, as the drivers write it: \<open>None\<close> when the file could
  not be loaded, otherwise a dict whose \<open>analysis\<close>, when there is one, is a dict.
\<close>

definition persisted_result :: "json \<Rightarrow> bool" where
  "persisted_result result =
     (case result of
        JNull \<Rightarrow> True
      | JObj d \<Rightarrow> (case map_of d ''analysis'' of None \<Rightarrow> True | Some a \<Rightarrow> is_dict a)
      | _ \<Rightarrow> False)"

section \<open>Files holding JSON\<close>

text \<open>
  A file as a reader finds it: absent; present but \<open>open\<close> or \<open>read\<close> raises
  (permissions, a directory, undecodable bytes); present with a text that \<open>json.load\<close>
  rejects with \<open>JSONDecodeError\<close>, as the empty or half-written text of a file opened
  for writing is; or present with the text of a value.
\<close>

datatype file_state =
    Absent
  | Unreadable exn
  | Garbled
  | Holds json

definition empty_checkpoint :: json where
  "empty_checkpoint = JObj [(''processed_files'', JArr [])]"

text \<open>\<open>with open(CHECKPOINT_FILE, 'r') as f: return json.load(f)\<close>.\<close>

fun open_and_load :: "file_state \<Rightarrow> exn + json" where
  "open_and_load Absent = Inl (Raised FileNotFoundError ''No such file or directory'')"
| "open_and_load (Unreadable e) = Inl e"
| "open_and_load Garbled = Inl (Raised JSONDecodeError ''Expecting value'')"
| "open_and_load (Holds j) = Inr j"

fun exists :: "file_state \<Rightarrow> bool" where
  "exists Absent = False"
| "exists c = True"

text \<open>
  \<open>load_checkpoint\<close> of processCROGQuestionsWithMistralSequential.py: the whole body
  is inside \<open>try ... except Exception\<close>.
\<close>

definition load_checkpoint :: "file_state \<Rightarrow> json" where
  "load_checkpoint c =
     (case (if exists c then open_and_load c else Inr empty_checkpoint) of
        Inl e \<Rightarrow> empty_checkpoint
      | Inr j \<Rightarrow> j)"

text \<open>
  \<open>read_checkpoint\<close> of processExamPacksWithMistral.py: only \<open>FileNotFoundError\<close> and
  \<open>json.JSONDecodeError\<close> are caught.
\<close>

definition read_checkpoint :: "file_state \<Rightarrow> exn + json" where
  "read_checkpoint c =
     (case open_and_load c of
        Inl e \<Rightarrow>
          if kind_of e = FileNotFoundError \<or> kind_of e = JSONDecodeError
          then Inr empty_checkpoint else Inl e
      | Inr j \<Rightarrow> Inr j)"

text \<open>\<open>processed_files = checkpoint.get("processed_files", [])\<close>, in both drivers.\<close>

definition processed_files_of :: "json \<Rightarrow> exn + json" where
  "processed_files_of checkpoint = py_get checkpoint ''processed_files'' (JArr [])"

text \<open>What \<open>save_checkpoint(processed_files)\<close> dumps.\<close>

definition checkpoint_json :: "json \<Rightarrow> json" where
  "checkpoint_json processed_files = JObj [(''processed_files'', processed_files)]"


section \<open>processCROGQuestionsWithMistralSequential.py\<close>

definition MAX_RETRIES :: nat where
  "MAX_RETRIES = 3"

definition TEST_MODE_LIMIT :: int where
  "TEST_MODE_LIMIT = 3"

subsection \<open>The world outside the script\<close>

text \<open>What BeautifulSoup extracts from a source file.\<close>

record page =
  source_url :: string
  question_text :: string
  answer_stats :: json
  session_stats :: json
  metadata :: "(string \<times> json) list"
  html_content :: string

record question_data = page +
  question_number :: string

text \<open>
  One \<open>requests.post\<close> with \<open>raise_for_status\<close>, \<open>response.json()\<close> and
  \<open>result.get("response", "")\<close>: a \<open>RequestException\<close> (connection, timeout, HTTP
  status, undecodable body); a text; a \<open>response\<close> value that is no string, with
  the exception that \<open>find\<close> raises on it inside the inner \<open>try\<close>; or an exception
  that no handler of \<open>generate_response\<close> catches.
\<close>

datatype reply =
    RequestFails string
  | Replies string
  | RepliesNoText json exn
  | Breaks exn

text \<open>A write \<open>with open(path, 'w') as f: json.dump(value, f)\<close>.\<close>

datatype io =
    Succeeds
  | FailsAtOpen exn
  | FailsMidway exn

text \<open>
  What the world does while one item is processed: what parsing the source file gives,
  the reply to the request sent with each \<open>retry_count\<close>, the fate of each write, and
  the clock. \<open>json.loads\<close> is a parameter of the model, of type \<open>decoder\<close>: it is only
  applied to texts that begin with an opening brace, where it can only return a dict.
\<close>

record item_env =
  parsed :: "exn + page"
  post :: "nat \<Rightarrow> reply"
  save_io :: io
  log_io :: "exn option"
  handler_log_io :: "exn option"
  cp_io :: io
  stamp :: string

type_synonym decoder = "string \<Rightarrow> (string \<times> json) list option"

type_synonym world = "string \<Rightarrow> item_env"

subsection \<open>Effects\<close>

datatype loc = OutputFile string | CheckpointFile | AllResultsFile

text \<open>
  What a run does to the outside, in order: a request sent for an item (named by its
  file name in the CR driver, by its question number in the exam-pack driver) with a
  \<open>retry_count\<close>; a file opened for writing, which empties it; a dump completed and
  the file closed; a line appended to the error log, kept as the timestamp, the
  identifier and the message that the f-string joins.
\<close>

datatype event =
    Requested string nat
  | Opened loc
  | Written loc json
  | Logged string string json

record disk =
  files :: "loc \<Rightarrow> file_state"
  error_log :: "(string \<times> string \<times> json) list"

fun apply_event :: "disk \<Rightarrow> event \<Rightarrow> disk" where
  "apply_event d (Requested f n) = d"
| "apply_event d (Opened l) = d\<lparr>files := (files d)(l := Garbled)\<rparr>"
| "apply_event d (Written l v) = d\<lparr>files := (files d)(l := Holds v)\<rparr>"
| "apply_event d (Logged t f m) = d\<lparr>error_log := error_log d @ [(t, f, m)]\<rparr>"

definition replay :: "disk \<Rightarrow> event list \<Rightarrow> disk" where
  "replay d evs = foldl apply_event d evs"

fun write_file :: "io \<Rightarrow> loc \<Rightarrow> json \<Rightarrow> event list \<times> exn option" where
  "write_file Succeeds l v = ([Opened l, Written l v], None)"
| "write_file (FailsAtOpen e) l v = ([], Some e)"
| "write_file (FailsMidway e) l v = ([Opened l], Some e)"

subsection \<open>\<open>load_html_file\<close>\<close>

definition load_html_file :: "exn + page \<Rightarrow> string \<Rightarrow> exn + question_data" where
  "load_html_file parse file_name =
     (case parse of
        Inl e \<Rightarrow> Inl e
      | Inr p \<Rightarrow>
          Inr \<lparr>source_url = source_url p, question_text = question_text p,
               answer_stats = answer_stats p, session_stats = session_stats p,
               metadata = metadata p, html_content = html_content p,
               question_number = replace ''.html'' [] (replace ''cr_'' [] file_name)\<rparr>)"

subsection \<open>\<open>manually_extract_components\<close>\<close>

definition quoted :: "string \<Rightarrow> string" where
  "quoted s = CHR 0x22 # s @ [CHR 0x22]"

text \<open>
  The stanza the function repeats for each field: find the quoted field name, then the
  colon after it, then the first quote-comma, and strip what lies between.
\<close>

definition scan_field :: "string \<Rightarrow> string \<Rightarrow> string option" where
  "scan_field text marker =
     (let start = py_find text marker 0
      in if 0 \<le> start then
           (let value_start = py_find text '':'' start + 1;
                value_end = py_find text [CHR 0x22, CHR 0x2C] value_start
            in if 0 \<le> value_end
               then Some (strip (strip_quote (strip
                      (py_slice text (Some value_start) (Some value_end)))))
               else None)
         else None)"

definition field_or_empty :: "string \<Rightarrow> string \<Rightarrow> string" where
  "field_or_empty text name = (case scan_field text (quoted name) of None \<Rightarrow> [] | Some v \<Rightarrow> v)"

definition option_texts :: "string \<Rightarrow> (string \<times> json) list" where
  "option_texts text =
     (let options_start = py_find text (quoted ''options'') 0
      in if 0 \<le> options_start then
           (let options_section =
                  py_slice text (Some options_start)
                    (Some (py_find text ''}'' options_start + 1))
            in map (\<lambda>option. ([option], JStr (field_or_empty options_section [option])))
                 ''ABCDE'')
         else map (\<lambda>option. ([option], JStr [])) ''ABCDE'')"

definition manually_extract_components ::
  "string \<Rightarrow> question_data \<Rightarrow> (string \<times> json) list" where
  "manually_extract_components text qd =
     [(''argument'', JStr (field_or_empty text ''argument'')),
      (''question_stem'', JStr (field_or_empty text ''question_stem'')),
      (''options'', JObj (option_texts text)),
      (''correct_answer'', JStr (field_or_empty text ''correct_answer'')),
      (''explanation'', JStr (field_or_empty text ''explanation'')),
      (''question_type'', JStr ''Critical Reasoning''),
      (''metadata'', JObj
         (case scan_field text (quoted ''cr_specific_type'') of
            None \<Rightarrow> metadata qd
          | Some v \<Rightarrow> AList.update ''cr_specific_type'' (JStr v) (metadata qd))),
      (''answer_stats'', answer_stats qd),
      (''session_stats'', session_stats qd),
      (''extraction_note'', JStr
         ''This response was manually extracted from an improperly formatted model output.'')]"

subsection \<open>\<open>generate_response\<close>\<close>

text \<open>The substring from the first opening brace to the last closing brace.\<close>

definition json_str :: "string \<Rightarrow> string option" where
  "json_str response_text =
     (let start_idx = py_find response_text ''{'' 0;
          end_idx = py_rfind response_text ''}'' + 1
      in if 0 \<le> start_idx \<and> start_idx < end_idx
         then Some (py_slice response_text (Some start_idx) (Some end_idx))
         else None)"

definition cr_required_keys :: "string list" where
  "cr_required_keys =
     [''argument'', ''question_stem'', ''options'', ''correct_answer'', ''explanation'',
      ''question_type'']"

text \<open>What the function adds to the dict it parsed, before it validates the structure.\<close>

definition complete :: "question_data \<Rightarrow> (string \<times> json) list \<Rightarrow> (string \<times> json) list" where
  "complete qd parsed_json =
     (let p1 = (if ''answer_stats'' \<notin> keys parsed_json
                then AList.update ''answer_stats'' (answer_stats qd) parsed_json
                else parsed_json);
          p2 = (if ''session_stats'' \<notin> keys p1
                then AList.update ''session_stats'' (session_stats qd) p1
                else p1);
          md = (case map_of p2 ''cr_specific_type'' of
                  None \<Rightarrow> metadata qd
                | Some v \<Rightarrow> AList.update ''cr_specific_type'' v (metadata qd));
          p3 = AList.delete ''cr_specific_type'' p2
      in AList.update ''question_type'' (JStr ''Critical Reasoning'')
           (AList.update ''metadata'' (JObj md) p3))"

text \<open>The inner \<open>try\<close> block, on a response text.\<close>

definition parse_response ::
  "decoder \<Rightarrow> question_data \<Rightarrow> string \<Rightarrow> (string \<times> json) list" where
  "parse_response loads qd response_text =
     (case json_str response_text of
        None \<Rightarrow> manually_extract_components response_text qd
      | Some s \<Rightarrow>
          (case loads s of
             None \<Rightarrow> manually_extract_components response_text qd
           | Some parsed_json \<Rightarrow>
               (let p = complete qd parsed_json
                in if \<exists>key \<in> set cr_required_keys. key \<notin> keys p
                   then manually_extract_components response_text qd
                   else p)))"

text \<open>
  The result is the list of the \<open>retry_count\<close>s with which a request was sent, and
  what the function returns or raises. The sleeps between attempts are not modelled.
\<close>

function generate_response ::
  "decoder \<Rightarrow> (nat \<Rightarrow> reply) \<Rightarrow> question_data \<Rightarrow> nat
     \<Rightarrow> nat list \<times> (exn + (string \<times> json) list)" where
  "generate_response loads reply qd retry_count =
     (case reply retry_count of
        Replies response_text \<Rightarrow>
          ([retry_count], Inr (parse_response loads qd response_text))
      | RepliesNoText v e \<Rightarrow>
          if retry_count < MAX_RETRIES
          then (let (sent, r) = generate_response loads reply qd (retry_count + 1)
                in (retry_count # sent, r))
          else ([retry_count],
                Inr [(''error'', JStr ''Failed to extract valid JSON after 3 retries'')])
      | RequestFails msg \<Rightarrow>
          if retry_count < MAX_RETRIES
          then (let (sent, r) = generate_response loads reply qd (retry_count + 1)
                in (retry_count # sent, r))
          else ([retry_count],
                Inr [(''error'', JStr (''API request failed after 3 retries: '' @ msg))])
      | Breaks e \<Rightarrow> ([retry_count], Inl e))"
  by pat_completeness auto
termination
  by (relation "measure (\<lambda>(loads, reply, qd, retry_count). Suc MAX_RETRIES - retry_count)")
    auto

subsection \<open>\<open>process_file_sequentially\<close>\<close>

datatype status = Processed | Errored | Skipped

definition output_name :: "string \<Rightarrow> string" where
  "output_name file_name = ''processed_'' @ replace ''.html'' ''.json'' file_name"

text \<open>The \<open>except Exception\<close> clause: the error is logged, and the log write is unguarded.\<close>

definition on_exception ::
  "item_env \<Rightarrow> string \<Rightarrow> event list \<Rightarrow> exn \<Rightarrow> event list \<times> (exn + status)" where
  "on_exception env file_name evs e =
     (case handler_log_io env of
        None \<Rightarrow> (evs @ [Logged (stamp env) file_name (JStr (str_of e))], Inr Errored)
      | Some e' \<Rightarrow> (evs, Inl e'))"

definition process_file_sequentially ::
  "decoder \<Rightarrow> item_env \<Rightarrow> string \<Rightarrow> json \<Rightarrow> event list \<times> (exn + status)" where
  "process_file_sequentially loads env file_name processed_files =
     (case py_in file_name processed_files of
        Inl e \<Rightarrow> ([], Inl e)
      | Inr True \<Rightarrow> ([], Inr Skipped)
      | Inr False \<Rightarrow>
          (case load_html_file (parsed env) file_name of
             Inl e \<Rightarrow> on_exception env file_name [] e
           | Inr qd \<Rightarrow>
               (let (sent, r) = generate_response loads (post env) qd 0;
                    evs = map (Requested file_name) sent
                in case r of
                     Inl e \<Rightarrow> on_exception env file_name evs e
                   | Inr result \<Rightarrow>
                       if ''error'' \<in> keys result then
                         (case log_io env of
                            None \<Rightarrow>
                              (evs @ [Logged (stamp env) file_name
                                        (case map_of result ''error'' of
                                           Some m \<Rightarrow> m | None \<Rightarrow> JNull)],
                               Inr Errored)
                          | Some e \<Rightarrow> on_exception env file_name evs e)
                       else
                         (case write_file (save_io env)
                                 (OutputFile (output_name file_name)) (JObj result) of
                            (ws, None) \<Rightarrow> (evs @ ws, Inr Processed)
                          | (ws, Some e) \<Rightarrow> on_exception env file_name (evs @ ws) e))))"

subsection \<open>\<open>process_all_files_sequentially\<close>\<close>

text \<open>\<open>len(v)\<close> and \<open>v.append(name)\<close>.\<close>

fun py_len :: "json \<Rightarrow> exn + nat" where
  "py_len (JStr s) = Inr (length s)"
| "py_len (JArr xs) = Inr (length xs)"
| "py_len (JObj d) = Inr (length d)"
| "py_len v = Inl (Raised TypeError ''object has no len'')"

fun py_append :: "json \<Rightarrow> string \<Rightarrow> exn + json" where
  "py_append (JArr xs) name = Inr (JArr (xs @ [JStr name]))"
| "py_append v name = Inl (Raised AttributeError ''object has no attribute append'')"

text \<open>
  One record per item the loop reached: the identifier, the effects of the iteration
  (those of \<open>save_checkpoint\<close> included) and what \<open>process_file_sequentially\<close> returned
  or raised. The journal is not a variable of the script; it is the history of the run.
\<close>

record entry =
  item :: string
  effects :: "event list"
  outcome :: "exn + status"

record progress =
  processed_files :: json
  journal :: "entry list"
  raised :: "exn option"

record run = progress +
  num_processed :: nat
  num_skipped :: nat
  num_errors :: nat

definition trace :: "'a progress_scheme \<Rightarrow> event list" where
  "trace r = concat (map effects (journal r))"

definition fresh_run :: "json \<Rightarrow> run" where
  "fresh_run pf =
     \<lparr>processed_files = pf, journal = [], raised = None,
      num_processed = 0, num_skipped = 0, num_errors = 0\<rparr>"

text \<open>
  The body of the loop over the files. \<open>save_checkpoint\<close> catches what its write raises.
  Timing and the sleep between files are not modelled.
\<close>

definition iteration :: "decoder \<Rightarrow> item_env \<Rightarrow> string \<Rightarrow> run \<Rightarrow> run" where
  "iteration loads env html_file s =
     (case process_file_sequentially loads env html_file (processed_files s) of
        (evs, Inl e) \<Rightarrow>
          s\<lparr>journal := journal s @ [\<lparr>item = html_file, effects = evs, outcome = Inl e\<rparr>],
            raised := Some e\<rparr>
      | (evs, Inr Processed) \<Rightarrow>
          (case py_append (processed_files s) html_file of
             Inl e \<Rightarrow>
               s\<lparr>num_processed := num_processed s + 1,
                 journal := journal s @
                   [\<lparr>item = html_file, effects = evs, outcome = Inr Processed\<rparr>],
                 raised := Some e\<rparr>
           | Inr pf \<Rightarrow>
               s\<lparr>processed_files := pf,
                 num_processed := num_processed s + 1,
                 journal := journal s @
                   [\<lparr>item = html_file,
                     effects = evs @ fst (write_file (cp_io env) CheckpointFile
                                            (checkpoint_json pf)),
                     outcome = Inr Processed\<rparr>]\<rparr>)
      | (evs, Inr Errored) \<Rightarrow>
          s\<lparr>num_errors := num_errors s + 1,
            journal := journal s @
              [\<lparr>item = html_file, effects = evs, outcome = Inr Errored\<rparr>]\<rparr>
      | (evs, Inr Skipped) \<Rightarrow>
          s\<lparr>num_skipped := num_skipped s + 1,
            journal := journal s @
              [\<lparr>item = html_file, effects = evs, outcome = Inr Skipped\<rparr>]\<rparr>)"

fun process_each :: "decoder \<Rightarrow> world \<Rightarrow> string list \<Rightarrow> run \<Rightarrow> run" where
  "process_each loads w [] s = s"
| "process_each loads w (html_file # rest) s =
     (let s' = iteration loads (w html_file) html_file s
      in if raised s' = None then process_each loads w rest s' else s')"

text \<open>The filter on the sorted file list.\<close>

definition select_files ::
  "string list \<Rightarrow> int option \<Rightarrow> int option \<Rightarrow> int option \<Rightarrow> bool \<Rightarrow> string list" where
  "select_files html_files start_idx end_idx limit test_mode =
     (case (start_idx, end_idx) of
        (Some a, Some b) \<Rightarrow> py_slice html_files (Some a) (Some (b + 1))
      | (Some a, None) \<Rightarrow> py_slice html_files (Some a) None
      | (None, _) \<Rightarrow>
          (case limit of
             Some n \<Rightarrow> py_slice html_files None (Some n)
           | None \<Rightarrow>
               if test_mode then py_slice html_files None (Some TEST_MODE_LIMIT)
               else html_files))"

text \<open>
  \<open>names\<close> is what \<open>glob\<close> found in the source directory, in any order; \<open>cp\<close> is the
  checkpoint file at the start.
\<close>

definition process_all_files_sequentially ::
  "decoder \<Rightarrow> world \<Rightarrow> string list \<Rightarrow> file_state
     \<Rightarrow> int option \<Rightarrow> int option \<Rightarrow> int option \<Rightarrow> bool \<Rightarrow> run" where
  "process_all_files_sequentially loads w names cp start_idx end_idx limit test_mode =
     (let html_files = sort names;
          checkpoint = load_checkpoint cp
      in case processed_files_of checkpoint of
           Inl e \<Rightarrow> (fresh_run JNull)\<lparr>raised := Some e\<rparr>
         | Inr pf \<Rightarrow>
             (case py_len pf of
                Inl e \<Rightarrow> (fresh_run pf)\<lparr>raised := Some e\<rparr>
              | Inr n \<Rightarrow>
                  process_each loads w
                    (select_files html_files start_idx end_idx limit test_mode)
                    (fresh_run pf)))"


section \<open>processExamPacksWithMistral.py\<close>

definition BATCH_SIZE :: nat where
  "BATCH_SIZE = 5"

text \<open>
  The exam-pack driver also appends to the error log inside \<open>generate_response\<close>, once
  for each failed request; \<open>retry_log_io\<close> is the fate of the append made at a
  \<open>retry_count\<close>.
\<close>

record exam_env = item_env +
  retry_log_io :: "nat \<Rightarrow> exn option"

subsection \<open>More of \<open>str\<close>\<close>

definition lower_char :: "char \<Rightarrow> char" where
  "lower_char c =
     (let n = (of_char c :: nat)
      in if (65 \<le> n \<and> n \<le> 90) \<or> (192 \<le> n \<and> n \<le> 222 \<and> n \<noteq> 215)
         then char_of (n + 32) else c)"

definition lower :: "string \<Rightarrow> string" where
  "lower s = map lower_char s"

definition contains :: "string \<Rightarrow> string \<Rightarrow> bool" where
  "contains sub s = (index_of sub s \<noteq> None)"

text \<open>\<open>s.split(c)\<close> for one character \<open>c\<close>.\<close>

fun split_on :: "char \<Rightarrow> string \<Rightarrow> string list" where
  "split_on c [] = [[]]"
| "split_on c (x # xs) =
     (if x = c then [] # split_on c xs
      else (case split_on c xs of
              [] \<Rightarrow> [[x]]
            | l # ls \<Rightarrow> (x # l) # ls))"

text \<open>\<open>s.split(sep, 1)[1]\<close>, when \<open>sep\<close> occurs: what follows its first occurrence.\<close>

definition after_first :: "string \<Rightarrow> string \<Rightarrow> string option" where
  "after_first sep s = map_option (\<lambda>i. drop (i + length sep) s) (index_of sep s)"

text \<open>\<open>sep.join(parts)\<close>.\<close>

fun join :: "string \<Rightarrow> string list \<Rightarrow> string" where
  "join sep [] = []"
| "join sep [l] = l"
| "join sep (l # ls) = l @ sep @ join sep ls"

text \<open>\<open>str\<close> of a list of strings, for strings without quotes or backslashes.\<close>

definition py_str_list :: "string list \<Rightarrow> string" where
  "py_str_list ks =
     ''['' @ join '', '' (map (\<lambda>k. [CHR 0x27] @ k @ [CHR 0x27]) ks) @ '']''"

subsection \<open>\<open>load_html_file\<close>\<close>

definition load_html_file_exam :: "exn + page \<Rightarrow> string \<Rightarrow> exn + question_data" where
  "load_html_file_exam parse file_name =
     (case parse of
        Inl e \<Rightarrow> Inl e
      | Inr p \<Rightarrow>
          Inr \<lparr>source_url = source_url p, question_text = question_text p,
               answer_stats = answer_stats p, session_stats = session_stats p,
               metadata = metadata p, html_content = html_content p,
               question_number = replace ''.html'' [] (replace ''question_'' [] file_name)\<rparr>)"

subsection \<open>\<open>manually_extract_components\<close>\<close>

text \<open>\<open>question_data.get("metadata", {}).get("type", "")\<close>.\<close>

definition metadata_type :: "question_data \<Rightarrow> json" where
  "metadata_type qd = (case map_of (metadata qd) ''type'' of None \<Rightarrow> JStr [] | Some v \<Rightarrow> v)"

definition ds_options :: "(string \<times> json) list" where
  "ds_options =
     [(''A'', JStr ''Statement (1) ALONE is sufficient, but statement (2) alone is not sufficient.''),
      (''B'', JStr ''Statement (2) ALONE is sufficient, but statement (1) alone is not sufficient.''),
      (''C'', JStr ''BOTH statements TOGETHER are sufficient, but NEITHER statement ALONE is sufficient.''),
      (''D'', JStr ''EACH statement ALONE is sufficient.''),
      (''E'', JStr ''Statements (1) and (2) TOGETHER are NOT sufficient.'')]"

text \<open>
  The loop over the lines that looks for the question: the line after a line that
  mentions it, when that line is not blank, ends the search; otherwise what follows the
  colon on the line itself is kept and the search goes on.
\<close>

fun find_question :: "string list \<Rightarrow> string option \<Rightarrow> string option" where
  "find_question [] found = found"
| "find_question (line # rest) found =
     (if contains ''question:'' (lower line) \<or> contains ''question'' (lower line) then
        (if rest \<noteq> [] \<and> strip (hd rest) \<noteq> [] then Some (strip (hd rest))
         else find_question rest
                (case after_first '':'' line of
                   None \<Rightarrow> found
                 | Some v \<Rightarrow> Some (strip v)))
      else find_question rest found)"

text \<open>The options of a question that is not Data Sufficiency, marker by marker.\<close>

fun find_options :: "string \<Rightarrow> string list \<Rightarrow> (string \<times> json) list \<Rightarrow> (string \<times> json) list" where
  "find_options text [] options = options"
| "find_options text (marker # markers) options =
     find_options text markers
       (case after_first marker text of
          None \<Rightarrow> options
        | Some v \<Rightarrow>
            AList.update (take 1 marker) (JStr (strip (hd (split_on CHR 0x0A v)))) options)"

fun find_answer :: "string list \<Rightarrow> string option \<Rightarrow> string option" where
  "find_answer [] found = found"
| "find_answer (line # rest) found =
     find_answer rest
       (if contains ''correct answer:'' (lower line) \<or> contains ''answer:'' (lower line) then
          (case after_first '':'' line of
             None \<Rightarrow> found
           | Some v \<Rightarrow>
               (let answer = strip v
                in if answer \<noteq> [] \<and> hd answer \<in> set ''ABCDE'' then Some [hd answer]
                   else found))
        else found)"

definition explanation_stop :: "string \<Rightarrow> bool" where
  "explanation_stop line =
     (contains ''question:'' line \<or> contains ''options:'' line \<or> contains ''correct answer:'' line)"

fun find_explanation :: "string list \<Rightarrow> string option \<Rightarrow> string option" where
  "find_explanation [] found = found"
| "find_explanation (line # rest) found =
     find_explanation rest
       (if contains ''explanation:'' (lower line) \<or> contains ''solution:'' (lower line)
        then Some (strip (join [CHR 0x0A] (takeWhile (\<lambda>l. \<not> explanation_stop l) rest)))
        else found)"

definition set_if_found ::
  "string \<Rightarrow> string option \<Rightarrow> (string \<times> json) list \<Rightarrow> (string \<times> json) list" where
  "set_if_found key found result =
     (case found of None \<Rightarrow> result | Some v \<Rightarrow> AList.update key (JStr v) result)"

definition manually_extract_components_exam ::
  "string \<Rightarrow> question_data \<Rightarrow> exn + (string \<times> json) list" where
  "manually_extract_components_exam text qd =
     (let lines = split_on CHR 0x0A text;
          r0 = [(''answer_stats'', answer_stats qd), (''session_stats'', session_stats qd)];
          r1 = (if contains ''question:'' (lower text) \<or> contains ''question'' (lower text)
                then set_if_found ''question'' (find_question lines None) r0 else r0)
      in case py_in ''Data Sufficiency'' (metadata_type qd) of
           Inl e \<Rightarrow> Inl e
         | Inr b \<Rightarrow>
             (let is_ds = (b \<or> metadata_type qd = JStr ''DS'');
                  r2 = AList.update ''question_type''
                         (JStr (if is_ds then ''Data Sufficiency'' else ''Problem Solving'')) r1;
                  options = find_options text [''A:'', ''B:'', ''C:'', ''D:'', ''E:''] [];
                  r3 = (if is_ds then AList.update ''options'' (JObj ds_options) r2
                        else if options \<noteq> [] then AList.update ''options'' (JObj options) r2
                        else r2);
                  r4 = (if contains ''correct answer:'' (lower text) \<or> contains ''answer:'' (lower text)
                        then set_if_found ''correct_answer'' (find_answer lines None) r3 else r3);
                  r5 = (if contains ''explanation:'' (lower text) \<or> contains ''solution:'' (lower text)
                        then set_if_found ''explanation'' (find_explanation lines None) r4 else r4)
              in Inr r5))"

subsection \<open>\<open>generate_response\<close>\<close>

definition exam_required_keys :: "string list" where
  "exam_required_keys =
     [''question'', ''options'', ''question_type'', ''correct_answer'', ''explanation'']"

text \<open>
  The inner \<open>try\<close> block, on a response text. Its \<open>except Exception\<close> turns whatever
  is raised inside into an error record. The decoder's message is not modelled.
\<close>

definition response_error :: "exn \<Rightarrow> string \<Rightarrow> (string \<times> json) list" where
  "response_error e response_text =
     [(''error'', JStr (''Error processing response: '' @ str_of e)),
      (''raw_response'', JStr response_text)]"

definition parse_response_exam ::
  "decoder \<Rightarrow> question_data \<Rightarrow> string \<Rightarrow> (string \<times> json) list" where
  "parse_response_exam loads qd response_text =
     (case json_str response_text of
        None \<Rightarrow>
          [(''error'', JStr ''Could not find JSON structure''),
           (''raw_response'', JStr response_text)]
      | Some s \<Rightarrow>
          (case loads s of
             None \<Rightarrow>
               (case manually_extract_components_exam response_text qd of
                  Inl e \<Rightarrow> response_error e response_text
                | Inr extracted \<Rightarrow>
                    [(''error'', JStr ''Invalid JSON format''),
                     (''raw_response'', JStr response_text),
                     (''extracted_text'', JObj extracted)])
           | Some parsed_json \<Rightarrow>
               (let p1 = (if ''answer_stats'' \<notin> keys parsed_json
                          then AList.update ''answer_stats'' (answer_stats qd) parsed_json
                          else parsed_json);
                    p2 = (if ''session_stats'' \<notin> keys p1
                          then AList.update ''session_stats'' (session_stats qd) p1
                          else p1)
                in case (if ''question_type'' \<notin> keys p2
                         then (case py_in ''Data Sufficiency'' (metadata_type qd) of
                                 Inl e \<Rightarrow> Inl e
                               | Inr b \<Rightarrow>
                                   Inr (AList.update ''question_type''
                                          (JStr (if b then ''Data Sufficiency''
                                                 else ''Problem Solving'')) p2))
                         else Inr p2) of
                     Inl e \<Rightarrow> response_error e response_text
                   | Inr p3 \<Rightarrow>
                       (let p4 = (if map_of p3 ''question_type'' = Some (JStr ''Data Sufficiency'')
                                     \<or> metadata_type qd = JStr ''DS''
                                  then AList.update ''options'' (JObj ds_options) p3
                                  else p3)
                        in if \<forall>key \<in> set exam_required_keys. key \<in> keys p4 then p4
                           else [(''error'', JStr (''Missing required keys in JSON: '' @
                                    py_str_list (filter (\<lambda>key. key \<notin> keys p4)
                                                   exam_required_keys))),
                                 (''partial_json'', JObj p4),
                                 (''raw_response'', JStr response_text)]))))"

text \<open>
  The result is the effects in order (requests, and the lines logged for failed
  requests) and what the function returns or raises. The appends to the error log are
  unguarded.
\<close>

function generate_response_exam ::
  "decoder \<Rightarrow> exam_env \<Rightarrow> question_data \<Rightarrow> nat
     \<Rightarrow> event list \<times> (exn + (string \<times> json) list)" where
  "generate_response_exam loads env qd retry_count =
     (let sent = Requested (question_number qd) retry_count
      in case post env retry_count of
           Replies response_text \<Rightarrow>
             ([sent], Inr (parse_response_exam loads qd response_text))
         | RepliesNoText v e \<Rightarrow>
             ([sent],
              Inr [(''error'', JStr (''Error processing response: '' @ str_of e)),
                   (''raw_response'', v)])
         | RequestFails msg \<Rightarrow>
             (case retry_log_io env retry_count of
                Some e \<Rightarrow> ([sent], Inl e)
              | None \<Rightarrow>
                  if retry_count < MAX_RETRIES
                  then (let (evs, r) = generate_response_exam loads env qd (retry_count + 1)
                        in (sent # Logged (stamp env) (question_number qd)
                                     (JStr (''API request failed: '' @ msg @ ''. Retrying...''))
                                 # evs, r))
                  else ([sent, Logged (stamp env) (question_number qd)
                                  (JStr (''Max retries reached. API request failed: '' @ msg))],
                        Inr [(''error'', JStr (''API request failed after 3 retries: '' @ msg))]))
         | Breaks e \<Rightarrow> ([sent], Inl e))"
  by pat_completeness auto
termination
  by (relation "measure (\<lambda>(loads, env, qd, retry_count). Suc MAX_RETRIES - retry_count)")
    auto

subsection \<open>\<open>process_all_files\<close>\<close>

definition output_name_exam :: "question_data \<Rightarrow> string" where
  "output_name_exam qd = ''processed_'' @ question_number qd @ ''.json''"

definition combine :: "question_data \<Rightarrow> (string \<times> json) list \<Rightarrow> json" where
  "combine qd response =
     JObj [(''question_number'', JStr (question_number qd)),
           (''source_url'', JStr (source_url qd)),
           (''metadata'', JObj (metadata qd)),
           (''analysis'', JObj response)]"

record exam_run = progress +
  batch_results :: "json list"
  all_results :: "json list"
  all_results_file :: file_state

text \<open>The \<open>except Exception\<close> clause of the loop body; its log write is unguarded.\<close>

definition on_exception_exam ::
  "exam_env \<Rightarrow> string \<Rightarrow> event list \<Rightarrow> exn \<Rightarrow> exam_run \<Rightarrow> exam_run" where
  "on_exception_exam env file_name evs e s =
     (case handler_log_io env of
        None \<Rightarrow>
          s\<lparr>journal := journal s @
               [\<lparr>item = file_name,
                 effects = evs @ [Logged (stamp env) file_name (JStr (str_of e))],
                 outcome = Inr Errored\<rparr>]\<rparr>
      | Some e' \<Rightarrow>
          s\<lparr>journal := journal s @ [\<lparr>item = file_name, effects = evs, outcome = Inl e'\<rparr>],
            raised := Some e'\<rparr>)"

text \<open>
  The body of the loop over the files of a batch. \<open>save_result\<close> and \<open>save_checkpoint\<close>
  are unguarded writes inside the \<open>try\<close>; the result and the identifier appended
  before a later statement raises stay appended.
\<close>

definition iteration_exam :: "decoder \<Rightarrow> exam_env \<Rightarrow> string \<Rightarrow> exam_run \<Rightarrow> exam_run" where
  "iteration_exam loads env file_name s =
     (case load_html_file_exam (parsed env) file_name of
        Inl e \<Rightarrow> on_exception_exam env file_name [] e s
      | Inr qd \<Rightarrow>
          (case generate_response_exam loads env qd 0 of
             (evs, Inl e) \<Rightarrow> on_exception_exam env file_name evs e s
           | (evs, Inr response) \<Rightarrow>
               (case write_file (save_io env) (OutputFile (output_name_exam qd))
                       (combine qd response) of
                  (ws, Some e) \<Rightarrow> on_exception_exam env file_name (evs @ ws) e s
                | (ws, None) \<Rightarrow>
                    (let s1 = s\<lparr>batch_results := batch_results s @ [combine qd response]\<rparr>
                     in case py_append (processed_files s) file_name of
                          Inl e \<Rightarrow> on_exception_exam env file_name (evs @ ws) e s1
                        | Inr pf \<Rightarrow>
                            (let s2 = s1\<lparr>processed_files := pf\<rparr>
                             in case write_file (cp_io env) CheckpointFile
                                       (checkpoint_json pf) of
                                  (cs, Some e) \<Rightarrow>
                                    on_exception_exam env file_name (evs @ ws @ cs) e s2
                                | (cs, None) \<Rightarrow>
                                    s2\<lparr>journal := journal s2 @
                                         [\<lparr>item = file_name, effects = evs @ ws @ cs,
                                           outcome = Inr Processed\<rparr>]\<rparr>)))))"

fun process_batch :: "decoder \<Rightarrow> (string \<Rightarrow> exam_env) \<Rightarrow> string list \<Rightarrow> exam_run \<Rightarrow> exam_run" where
  "process_batch loads w [] s = s"
| "process_batch loads w (file_name # rest) s =
     (let s' = iteration_exam loads (w file_name) file_name s
      in if raised s' = None then process_batch loads w rest s' else s')"

text \<open>Iterating a loaded value, and the key a value is looked up by in a \<open>set\<close>.\<close>

fun py_iter :: "json \<Rightarrow> exn + json list" where
  "py_iter (JArr xs) = Inr xs"
| "py_iter (JObj d) = Inr (map (\<lambda>kv. JStr (fst kv)) d)"
| "py_iter (JStr s) = Inr (map (\<lambda>c. JStr [c]) s)"
| "py_iter v = Inl not_iterable"

fun hashable :: "json \<Rightarrow> bool" where
  "hashable (JArr xs) = False"
| "hashable (JObj d) = False"
| "hashable v = True"

text \<open>
  The previously saved results that are kept: those whose question number is not
  among the current ones.
\<close>

fun keep_previous :: "json list \<Rightarrow> json list \<Rightarrow> exn + json list" where
  "keep_previous existing [] = Inr []"
| "keep_previous existing (r # rs) =
     (case py_get r ''question_number'' JNull of
        Inl e \<Rightarrow> Inl e
      | Inr n \<Rightarrow>
          if \<not> hashable n then Inl (Raised TypeError ''unhashable type'')
          else (case keep_previous existing rs of
                  Inl e \<Rightarrow> Inl e
                | Inr kept \<Rightarrow> Inr (if n \<in> set existing then kept else r # kept)))"

definition question_number_of :: "json \<Rightarrow> json" where
  "question_number_of r = (case py_get r ''question_number'' JNull of Inl e \<Rightarrow> JNull | Inr n \<Rightarrow> n)"

text \<open>
  The end of a batch: the batch joins the results of the run, and the aggregate file is
  read, merged and rewritten. Only \<open>JSONDecodeError\<close> is caught on the read, and the
  write is unguarded. The effects are kept in an entry under the name of the file.
\<close>

definition all_results_name :: string where
  "all_results_name = ''all_processed_questions.json''"

definition abort_batch :: "event list \<Rightarrow> exn \<Rightarrow> exam_run \<Rightarrow> exam_run" where
  "abort_batch evs e s =
     s\<lparr>journal := journal s @ [\<lparr>item = all_results_name, effects = evs, outcome = Inl e\<rparr>],
       raised := Some e\<rparr>"

definition finish_batch :: "io \<Rightarrow> exam_run \<Rightarrow> exam_run" where
  "finish_batch agg_io s0 =
     (let s = s0\<lparr>all_results := all_results s0 @ batch_results s0, batch_results := []\<rparr>
      in case (if exists (all_results_file s)
               then (case open_and_load (all_results_file s) of
                       Inl e \<Rightarrow> if kind_of e = JSONDecodeError then Inr (JArr []) else Inl e
                     | Inr v \<Rightarrow> Inr v)
               else Inr (JArr [])) of
           Inl e \<Rightarrow> abort_batch [] e s
         | Inr previously_processed \<Rightarrow>
             (case py_iter previously_processed of
                Inl e \<Rightarrow> abort_batch [] e s
              | Inr previous \<Rightarrow>
                  (case keep_previous (map question_number_of (all_results s)) previous of
                     Inl e \<Rightarrow> abort_batch [] e s
                   | Inr kept \<Rightarrow>
                       (case write_file agg_io AllResultsFile (JArr (all_results s @ kept)) of
                          (ws, Some e) \<Rightarrow>
                            (abort_batch ws e s)
                              \<lparr>all_results_file :=
                                 (if ws = [] then all_results_file s else Garbled)\<rparr>
                        | (ws, None) \<Rightarrow>
                            s\<lparr>journal := journal s @
                                 [\<lparr>item = all_results_name, effects = ws,
                                   outcome = Inr Processed\<rparr>],
                              all_results_file := Holds (JArr (all_results s @ kept))\<rparr>))))"

text \<open>The batches, \<open>BATCH_SIZE\<close> files at a time; \<open>k\<close> counts them.\<close>

function process_batches ::
  "decoder \<Rightarrow> (string \<Rightarrow> exam_env) \<Rightarrow> (nat \<Rightarrow> io) \<Rightarrow> nat \<Rightarrow> string list \<Rightarrow> exam_run
     \<Rightarrow> exam_run" where
  "process_batches loads w agg_io k remaining_files s =
     (if remaining_files = [] then s
      else (let s1 = process_batch loads w (take BATCH_SIZE remaining_files) s
            in if raised s1 \<noteq> None then s1
               else (let s2 = finish_batch (agg_io k) s1
                     in if raised s2 \<noteq> None then s2
                        else process_batches loads w agg_io (k + 1)
                               (drop BATCH_SIZE remaining_files) s2)))"
  by pat_completeness auto
termination
  by (relation "measure (\<lambda>(loads, w, agg_io, k, remaining_files, s). length remaining_files)")
    (auto simp: BATCH_SIZE_def)

text \<open>The files still to do, in the order of \<open>glob\<close>.\<close>

fun remaining :: "string list \<Rightarrow> json \<Rightarrow> exn + string list" where
  "remaining [] processed = Inr []"
| "remaining (f # fs) processed =
     (case py_in f processed of
        Inl e \<Rightarrow> Inl e
      | Inr b \<Rightarrow>
          (case remaining fs processed of
             Inl e \<Rightarrow> Inl e
           | Inr rs \<Rightarrow> Inr (if b then rs else f # rs)))"

text \<open>The range: \<open>start_idx or 0\<close>, and a limit overrides the end.\<close>

definition select_range ::
  "string list \<Rightarrow> int option \<Rightarrow> int option \<Rightarrow> int option \<Rightarrow> string list" where
  "select_range remaining_files start_idx end_idx limit =
     (if start_idx \<noteq> None \<or> end_idx \<noteq> None \<or> limit \<noteq> None then
        (let start = (case start_idx of None \<Rightarrow> 0 | Some a \<Rightarrow> a);
             end0 = (case end_idx of None \<Rightarrow> int (length remaining_files) | Some b \<Rightarrow> b);
             end1 = (case limit of
                       None \<Rightarrow> end0
                     | Some n \<Rightarrow> min (start + n) (int (length remaining_files)))
         in py_slice remaining_files (Some start) (Some end1))
      else remaining_files)"

definition fresh_exam_run :: "json \<Rightarrow> file_state \<Rightarrow> exam_run" where
  "fresh_exam_run pf agg =
     \<lparr>processed_files = pf, journal = [], raised = None,
      batch_results = [], all_results = [], all_results_file = agg\<rparr>"

text \<open>
  \<open>names\<close> is what \<open>glob\<close> found, in its order; \<open>cp\<close> and \<open>agg\<close> are the checkpoint file
  and the aggregate file at the start.
\<close>

definition process_all_files ::
  "decoder \<Rightarrow> (string \<Rightarrow> exam_env) \<Rightarrow> (nat \<Rightarrow> io) \<Rightarrow> string list \<Rightarrow> file_state \<Rightarrow> file_state
     \<Rightarrow> int option \<Rightarrow> int option \<Rightarrow> int option \<Rightarrow> exam_run" where
  "process_all_files loads w agg_io names cp agg start_idx end_idx limit =
     (case read_checkpoint cp of
        Inl e \<Rightarrow> (fresh_exam_run JNull agg)\<lparr>raised := Some e\<rparr>
      | Inr checkpoint \<Rightarrow>
          (case processed_files_of checkpoint of
             Inl e \<Rightarrow> (fresh_exam_run JNull agg)\<lparr>raised := Some e\<rparr>
           | Inr pf \<Rightarrow>
               (case py_len pf of
                  Inl e \<Rightarrow> (fresh_exam_run pf agg)\<lparr>raised := Some e\<rparr>
                | Inr n \<Rightarrow>
                    (case remaining names pf of
                       Inl e \<Rightarrow> (fresh_exam_run pf agg)\<lparr>raised := Some e\<rparr>
                     | Inr remaining_files \<Rightarrow>
                         if remaining_files = [] then fresh_exam_run pf agg
                         else process_batches loads w agg_io 0
                                (select_range (sort remaining_files) start_idx end_idx limit)
                                (fresh_exam_run pf agg)))))"


section \<open>Sample worlds\<close>

text \<open>Concrete inputs on which the results below are instantiated.\<close>

definition sample_page :: page where
  "sample_page =
     \<lparr>source_url = ''https://example.org/q'', question_text = ''Which one?'',
      answer_stats = JObj [], session_stats = JObj [],
      metadata = [(''source'', JStr []), (''type'', JStr ''CR'')],
      html_content = ''<div>Which one?</div>''\<rparr>"

definition sample_question :: question_data where
  "sample_question =
     \<lparr>source_url = ''https://example.org/q'', question_text = ''Which one?'',
      answer_stats = JObj [], session_stats = JObj [],
      metadata = [(''source'', JStr []), (''type'', JStr ''CR'')],
      html_content = ''<div>Which one?</div>'', question_number = ''1''\<rparr>"

text \<open>
  The text of one JSON object, between its braces, and the dict it denotes; a decoder
  that accepts this text only, and one that accepts nothing.
\<close>

definition sample_body :: string where
  "sample_body =
     quoted ''argument'' @ '': '' @ quoted ''All cats purr.'' @ '', '' @
     quoted ''question_stem'' @ '': '' @ quoted ''Which one?'' @ '', '' @
     quoted ''options'' @ '': {}, '' @
     quoted ''correct_answer'' @ '': '' @ quoted ''B'' @ '', '' @
     quoted ''explanation'' @ '': '' @ quoted ''Because.''"

definition sample_object :: "(string \<times> json) list" where
  "sample_object =
     [(''argument'', JStr ''All cats purr.''), (''question_stem'', JStr ''Which one?''),
      (''options'', JObj []), (''correct_answer'', JStr ''B''),
      (''explanation'', JStr ''Because.'')]"

definition sample_decoder :: decoder where
  "sample_decoder s = (if s = CHR ''{'' # sample_body @ ''}'' then Some sample_object else None)"

definition rejecting :: decoder where
  "rejecting s = None"

text \<open>The same conditions for every item.\<close>

definition always :: "'e \<Rightarrow> 'k \<Rightarrow> 'e" where
  "always env file_name = env"

text \<open>A world where nothing fails and the service answers in prose.\<close>

definition calm :: item_env where
  "calm =
     \<lparr>parsed = Inr sample_page, post = (\<lambda>n. Replies ''The answer is B.''),
      save_io = Succeeds, log_io = None, handler_log_io = None, cp_io = Succeeds,
      stamp = ''2025-01-01 00:00:00''\<rparr>"

text \<open>The service is down, and the service fails three times before it answers.\<close>

definition down :: item_env where
  "down = calm\<lparr>post := (\<lambda>n. RequestFails ''timed out'')\<rparr>"

text \<open>The service is down and the first append to the error log fails.\<close>

definition down_unlogged :: item_env where
  "down_unlogged = down\<lparr>log_io := Some (Raised OSError ''No space left on device'')\<rparr>"

definition flaky :: item_env where
  "flaky = calm\<lparr>post := (\<lambda>n. if n < 3 then RequestFails ''timed out''
                                else Replies ''The answer is B.'')\<rparr>"


text \<open>The calm world, for the exam-pack driver.\<close>

definition calm_exam :: exam_env where
  "calm_exam =
     \<lparr>parsed = Inr sample_page, post = (\<lambda>n. Replies ''The answer is B.''),
      save_io = Succeeds, log_io = None, handler_log_io = None, cp_io = Succeeds,
      stamp = ''2025-01-01T00:00:00'', retry_log_io = (\<lambda>n. None)\<rparr>"


text \<open>An empty disk, and a disk whose checkpoint lists an item that has no output file.\<close>

definition blank :: disk where
  "blank = \<lparr>files = (\<lambda>l. Absent), error_log = []\<rparr>"

definition stale :: disk where
  "stale =
     \<lparr>files = (\<lambda>l. Absent)(CheckpointFile := Holds (checkpoint_json (JArr [JStr ''cr_1.html'']))),
      error_log = []\<rparr>"




section \<open>Notions the results are stated with\<close>

text \<open>
  What a restarted run would load as its list of processed identifiers, and whether the
  output file of an item is there in full.
\<close>

definition loaded :: "disk \<Rightarrow> exn + json" where
  "loaded d = processed_files_of (load_checkpoint (files d CheckpointFile))"

definition checkpointed :: "disk \<Rightarrow> json list" where
  "checkpointed d = (case loaded d of Inr (JArr xs) \<Rightarrow> xs | _ \<Rightarrow> [])"

definition completed :: "disk \<Rightarrow> string \<Rightarrow> bool" where
  "completed d f = (case files d (OutputFile (output_name f)) of Holds v \<Rightarrow> True | _ \<Rightarrow> False)"

text \<open>The resume invariant: every identifier in the checkpoint has its output file.\<close>

definition resume_invariant :: "disk \<Rightarrow> bool" where
  "resume_invariant d =
     (\<forall>j \<in> set (checkpointed d). case j of JStr f \<Rightarrow> completed d f | _ \<Rightarrow> True)"

text \<open>An effect on the checkpoint file.\<close>

fun on_checkpoint :: "event \<Rightarrow> bool" where
  "on_checkpoint (Opened CheckpointFile) = True"
| "on_checkpoint (Written CheckpointFile v) = True"
| "on_checkpoint ev = False"

text \<open>
  An effect that belongs to the attempt on one item and is not the completed write of
  its output: a request, a line in the error log, the opening of its output file.
\<close>

definition mild :: "string \<Rightarrow> event \<Rightarrow> bool" where
  "mild f ev =
     ((\<exists>n. ev = Requested f n) \<or> (\<exists>t m. ev = Logged t f m)
      \<or> ev = Opened (OutputFile (output_name f)))"

text \<open>An effect that leaves the checkpoint file and the output files of \<open>ys\<close> alone.\<close>

fun spares :: "json list \<Rightarrow> event \<Rightarrow> bool" where
  "spares ys (Opened (OutputFile p)) = (\<forall>f. JStr f \<in> set ys \<longrightarrow> output_name f \<noteq> p)"
| "spares ys (Written (OutputFile p) v) = (\<forall>f. JStr f \<in> set ys \<longrightarrow> output_name f \<noteq> p)"
| "spares ys (Opened CheckpointFile) = False"
| "spares ys (Written CheckpointFile v) = False"
| "spares ys ev = True"

text \<open>
  The checkpoint file lists none but the identifiers \<open>ys\<close>; and the disk agrees with
  the list \<open>ys\<close> the run holds in memory: each of them has its output file as well.
\<close>

definition lists :: "json list \<Rightarrow> disk \<Rightarrow> bool" where
  "lists ys d = (\<exists>zs. loaded d = Inr (JArr zs) \<and> set zs \<subseteq> set ys)"

definition agrees :: "json list \<Rightarrow> disk \<Rightarrow> bool" where
  "agrees ys d = ((\<forall>f. JStr f \<in> set ys \<longrightarrow> completed d f) \<and> lists ys d)"

text \<open>The resume invariant holds after every prefix of a sequence of effects.\<close>

definition safe :: "disk \<Rightarrow> event list \<Rightarrow> bool" where
  "safe d evs = (\<forall>n. resume_invariant (replay d (take n evs)))"

text \<open>
  An entry that an iteration can leave when it starts with the processed identifiers
  \<open>zs\<close>: a skip of an identifier among them without any effect; or, for an identifier
  not among them, an attempt that does not complete the output, or the requests, then
  the output file written in full, then what \<open>save_checkpoint\<close> did.
\<close>

definition recorded :: "json list \<Rightarrow> entry \<Rightarrow> bool" where
  "recorded zs e =
     (if outcome e = Inr Skipped then JStr (item e) \<in> set zs \<and> effects e = []
      else if outcome e = Inr Processed then
        JStr (item e) \<notin> set zs
        \<and> (\<exists>sent v io. effects e =
               map (Requested (item e)) sent @
               [Opened (OutputFile (output_name (item e))),
                Written (OutputFile (output_name (item e))) v] @
               fst (write_file io CheckpointFile
                      (checkpoint_json (JArr (zs @ [JStr (item e)])))))
      else JStr (item e) \<notin> set zs \<and> (\<forall>ev \<in> set (effects e). mild (item e) ev))"

text \<open>The processed identifiers after a sequence of entries.\<close>

definition grown :: "json list \<Rightarrow> entry list \<Rightarrow> json list" where
  "grown zs es = zs @ map (\<lambda>e. JStr (item e)) (filter (\<lambda>e. outcome e = Inr Processed) es)"

fun follows :: "json list \<Rightarrow> entry list \<Rightarrow> bool" where
  "follows zs [] = True"
| "follows zs (e # es) = (recorded zs e \<and> follows (grown zs [e]) es)"

text \<open>
  A state of the loop that its journal accounts for: the entries follow one another,
  the list in memory is the initial one grown by the processed items, and an exception
  that ended the run is the one the error log raised in the handler.
\<close>

definition sound :: "world \<Rightarrow> json list \<Rightarrow> string list \<Rightarrow> run \<Rightarrow> bool" where
  "sound w xs ds s =
     (follows xs (journal s) \<and> processed_files s = JArr (grown xs (journal s))
      \<and> map item (journal s) = ds
      \<and> (\<forall>x \<in> set (journal s). \<forall>e. outcome x = Inl e \<longrightarrow>
            handler_log_io (w (item x)) = Some e \<and> raised s = Some e)
      \<and> (\<forall>e. raised s = Some e \<longrightarrow> (\<exists>x \<in> set (journal s). outcome x = Inl e)))"

text \<open>The checkpoint file holds the list that the run holds in memory.\<close>

definition saved :: "disk \<Rightarrow> run \<Rightarrow> bool" where
  "saved d s = ((\<exists>ys. processed_files s = JArr ys)
     \<and> loaded (replay d (trace s)) = Inr (processed_files s))"



text \<open>
  The question number the exam-pack driver derives from a file name, and the entries of
  a batch of its run in which every item is saved and every write succeeds, given the
  question data and the response obtained for each item.
\<close>

definition exam_number :: "string \<Rightarrow> string" where
  "exam_number file_name = replace ''.html'' [] (replace ''question_'' [] file_name)"


section \<open>Results\<close>

subsection \<open>Searching a text\<close>

declare generate_response.simps [simp del]

declare generate_response_exam.simps [simp del]

lemma index_of_single_None: "index_of [c] t = None \<longleftrightarrow> c \<notin> set t"
  by (induction t) auto

lemma rindex_of_single_None: "rindex_of [c] t = None \<longleftrightarrow> c \<notin> set t"
  by (induction t) (auto split: option.splits)

lemma index_of_first: "c \<notin> set before \<Longrightarrow> index_of [c] (before @ c # rest) = Some (length before)"
  by (induction before) auto

lemma rindex_of_last: "c \<notin> set rest \<Longrightarrow> rindex_of [c] (xs @ c # rest) = Some (length xs)"
  by (induction xs) (auto simp: rindex_of_single_None split: option.splits)

lemma json_str_None:
  assumes "CHR ''{'' \<notin> set t \<or> CHR ''}'' \<notin> set t"
  shows "json_str t = None"
proof -
  from assms have "index_of ''{'' t = None \<or> rindex_of ''}'' t = None"
    by (simp add: index_of_single_None rindex_of_single_None)
  then show ?thesis
    by (auto simp: json_str_def py_find_def py_rfind_def Let_def split: option.splits)
qed

lemma json_str_embedded:
  assumes "CHR ''{'' \<notin> set before" "CHR ''}'' \<notin> set rest"
  shows "json_str (before @ (CHR ''{'' # body @ ''}'') @ rest) = Some (CHR ''{'' # body @ ''}'')"
proof -
  have a: "index_of ''{'' (before @ CHR ''{'' # (body @ ''}'' @ rest)) = Some (length before)"
    using assms(1) by (rule index_of_first)
  have b: "rindex_of ''}'' ((before @ CHR ''{'' # body) @ CHR ''}'' # rest)
             = Some (length (before @ CHR ''{'' # body))"
    using assms(2) by (rule rindex_of_last)
  have c: "nat (2 + (int (length before) + int (length body))) - length before
             = Suc (Suc (length body))"
    by simp
  have d: "take (Suc (Suc (length body))) (CHR ''{'' # body @ CHR ''}'' # rest)
             = CHR ''{'' # body @ ''}''"
    by simp
  show ?thesis using a b
    by (simp add: json_str_def py_find_def py_rfind_def Let_def py_slice_def clip_def c d
          del: take_Suc_Cons)
qed

subsection \<open>The retries\<close>

lemma generate_response_all_fail:
  assumes "\<forall>n\<le>MAX_RETRIES. reply n = RequestFails (m n)"
  shows "generate_response loads reply qd 0 =
     ([0, 1, 2, 3], Inr [(''error'', JStr (''API request failed after 3 retries: '' @ m 3))])"
proof -
  let ?err = "Inr [(''error'', JStr (''API request failed after 3 retries: '' @ m 3))]"
  have r: "reply 0 = RequestFails (m 0)" "reply (Suc 0) = RequestFails (m 1)"
    "reply (Suc (Suc 0)) = RequestFails (m 2)" "reply (Suc (Suc (Suc 0))) = RequestFails (m 3)"
    using assms by (simp_all add: MAX_RETRIES_def eval_nat_numeral)
  have 3: "generate_response loads reply qd (Suc (Suc (Suc 0))) = ([3], ?err)"
    by (subst generate_response.simps) (simp add: r MAX_RETRIES_def eval_nat_numeral)
  have 2: "generate_response loads reply qd (Suc (Suc 0)) = ([2, 3], ?err)"
    by (subst generate_response.simps) (simp add: r 3 MAX_RETRIES_def eval_nat_numeral)
  have 1: "generate_response loads reply qd (Suc 0) = ([1, 2, 3], ?err)"
    by (subst generate_response.simps) (simp add: r 2 MAX_RETRIES_def eval_nat_numeral)
  show ?thesis
    by (subst generate_response.simps) (simp add: r 1 MAX_RETRIES_def)
qed

subsection \<open>One iteration of the loop\<close>

lemma pfs_skip:
  "py_in f pf = Inr True \<Longrightarrow> process_file_sequentially loads env f pf = ([], Inr Skipped)"
  by (simp add: process_file_sequentially_def)

lemma on_exception_cases:
  assumes "on_exception env f evs e = (evs', r)"
  shows "(r = Inr Errored \<and> handler_log_io env = None \<and> (\<exists>t m. evs' = evs @ [Logged t f m]))
       \<or> (\<exists>e'. r = Inl e' \<and> handler_log_io env = Some e' \<and> evs' = evs)"
  using assms by (auto simp: on_exception_def split: option.splits)

lemma pfs_cases:
  assumes "py_in f pf = Inr False"
    and "process_file_sequentially loads env f pf = (evs, r)"
  shows "(\<exists>sent v. r = Inr Processed \<and> save_io env = Succeeds
            \<and> evs = map (Requested f) sent @
                [Opened (OutputFile (output_name f)), Written (OutputFile (output_name f)) v])
       \<or> ((r = Inr Errored \<or> (\<exists>e. r = Inl e \<and> handler_log_io env = Some e))
            \<and> (\<forall>ev \<in> set evs. mild f ev))"
proof (cases "load_html_file (parsed env) f")
  case (Inl e)
  with assms show ?thesis
    by (auto simp: process_file_sequentially_def mild_def Let_def dest!: on_exception_cases)
next
  case (Inr qd)
  obtain sent g where g: "generate_response loads (post env) qd 0 = (sent, g)"
    by (cases "generate_response loads (post env) qd 0")
  have m: "\<forall>ev \<in> set (map (Requested f) sent). mild f ev"
    by (simp add: mild_def)
  show ?thesis
  proof (cases g)
    case (Inl e)
    with assms Inr g m show ?thesis
      by (auto simp: process_file_sequentially_def mild_def Let_def dest!: on_exception_cases)
  next
    case res: (Inr result)
    show ?thesis
    proof (cases "''error'' \<in> keys result")
      case True
      with assms Inr g m res show ?thesis
        by (auto simp: process_file_sequentially_def mild_def Let_def split: option.splits
            dest!: on_exception_cases)
    next
      case False
      with assms Inr g m res show ?thesis
        by (cases "save_io env")
          (auto simp: process_file_sequentially_def mild_def Let_def dest!: on_exception_cases)
    qed
  qed
qed

lemma iteration_shape:
  assumes pf: "processed_files s = JArr xs"
  obtains
    (skipped) "JStr f \<in> set xs"
      "iteration loads env f s =
         s\<lparr>num_skipped := num_skipped s + 1,
           journal := journal s @ [\<lparr>item = f, effects = [], outcome = Inr Skipped\<rparr>]\<rparr>"
  | (processed) sent v where "JStr f \<notin> set xs"
      "iteration loads env f s =
         s\<lparr>processed_files := JArr (xs @ [JStr f]),
           num_processed := num_processed s + 1,
           journal := journal s @
             [\<lparr>item = f,
               effects = map (Requested f) sent @
                 [Opened (OutputFile (output_name f)), Written (OutputFile (output_name f)) v] @
                 fst (write_file (cp_io env) CheckpointFile
                        (checkpoint_json (JArr (xs @ [JStr f])))),
               outcome = Inr Processed\<rparr>]\<rparr>"
  | (errored) evs where "JStr f \<notin> set xs" "\<forall>ev \<in> set evs. mild f ev"
      "iteration loads env f s =
         s\<lparr>num_errors := num_errors s + 1,
           journal := journal s @ [\<lparr>item = f, effects = evs, outcome = Inr Errored\<rparr>]\<rparr>"
  | (failed) evs e where "JStr f \<notin> set xs" "\<forall>ev \<in> set evs. mild f ev"
      "handler_log_io env = Some e"
      "iteration loads env f s =
         s\<lparr>journal := journal s @ [\<lparr>item = f, effects = evs, outcome = Inl e\<rparr>],
           raised := Some e\<rparr>"
proof (cases "JStr f \<in> set xs")
  case True
  then have "process_file_sequentially loads env f (processed_files s) = ([], Inr Skipped)"
    by (simp add: pfs_skip pf)
  then show ?thesis
    using True by (intro skipped) (simp_all add: iteration_def)
next
  case False
  then have n: "py_in f (JArr xs) = Inr False"
    by simp
  obtain evs r where p: "process_file_sequentially loads env f (JArr xs) = (evs, r)"
    by (cases "process_file_sequentially loads env f (JArr xs)")
  from pfs_cases [OF n p] consider
      (a) sent v where "r = Inr Processed"
        "evs = map (Requested f) sent @
           [Opened (OutputFile (output_name f)), Written (OutputFile (output_name f)) v]"
    | (b) "r = Inr Errored" "\<forall>ev \<in> set evs. mild f ev"
    | (c) e where "r = Inl e" "handler_log_io env = Some e" "\<forall>ev \<in> set evs. mild f ev"
    by blast
  then show ?thesis
  proof cases
    case a
    show ?thesis
      by (rule processed [OF False, of sent v]) (simp add: iteration_def p a pf)
  next
    case b
    show ?thesis
      by (rule errored [OF False b(2)]) (simp add: iteration_def p b(1) pf)
  next
    case c
    show ?thesis
      by (rule failed [OF False c(3) c(2)]) (simp add: iteration_def p c(1) pf)
  qed
qed

subsection \<open>The loop, and effects on the disk\<close>

lemma process_each_invariant:
  assumes "I [] s" and "raised s = None"
    and "\<And>ds f s. I ds s \<Longrightarrow> raised s = None \<Longrightarrow> prefix (ds @ [f]) fs
           \<Longrightarrow> I (ds @ [f]) (iteration loads (w f) f s)"
  shows "\<exists>ds. prefix ds fs \<and> I ds (process_each loads w fs s)
           \<and> (raised (process_each loads w fs s) = None \<longrightarrow> ds = fs)"
  using assms
proof (induction fs arbitrary: s I)
  case Nil
  then show ?case by simp
next
  case (Cons f fs)
  let ?s = "iteration loads (w f) f s"
  have first: "I [f] ?s"
    using Cons.prems(3) [of "[]" s f] Cons.prems(1,2) by simp
  show ?case
  proof (cases "raised ?s")
    case (Some e)
    then have eq: "process_each loads w (f # fs) s = ?s"
      by (simp add: Let_def)
    have "prefix [f] (f # fs) \<and> I [f] ?s \<and> (raised ?s = None \<longrightarrow> [f] = f # fs)"
      using first Some by simp
    then show ?thesis
      unfolding eq by (rule exI)
  next
    case None
    have eq: "process_each loads w (f # fs) s = process_each loads w fs ?s"
      using None by (simp add: Let_def)
    have step: "I (f # ds @ [g]) (iteration loads (w g) g t)"
      if "I (f # ds) t" "raised t = None" "prefix (ds @ [g]) fs" for ds g t
      using Cons.prems(3) [of "f # ds" t g] that by simp
    have "\<exists>ds. prefix ds fs \<and> I (f # ds) (process_each loads w fs ?s)
           \<and> (raised (process_each loads w fs ?s) = None \<longrightarrow> ds = fs)"
      using Cons.IH [of "\<lambda>ds. I (f # ds)" ?s] first None step by simp
    then obtain ds where h: "prefix ds fs \<and> I (f # ds) (process_each loads w fs ?s)
           \<and> (raised (process_each loads w fs ?s) = None \<longrightarrow> ds = fs)"
      by (rule exE)
    then have "prefix (f # ds) (f # fs) \<and> I (f # ds) (process_each loads w fs ?s)
           \<and> (raised (process_each loads w fs ?s) = None \<longrightarrow> f # ds = f # fs)"
      by simp
    then show ?thesis
      unfolding eq by (rule exI)
  qed
qed

lemma replay_append: "replay d (as @ bs) = replay (replay d as) bs"
  by (simp add: replay_def)

lemma replay_Nil: "replay d [] = d"
  by (simp add: replay_def)

lemma replay_Cons: "replay d (e # es) = replay (apply_event d e) es"
  by (simp add: replay_def)

lemma safe_Nil: "safe d [] = resume_invariant d"
  by (simp add: safe_def replay_Nil)

lemma safe_append:
  assumes "safe d as" "safe (replay d as) bs"
  shows "safe d (as @ bs)"
  unfolding safe_def
proof
  fix n
  show "resume_invariant (replay d (take n (as @ bs)))"
  proof (cases "n \<le> length as")
    case True
    then show ?thesis using assms(1) by (simp add: safe_def)
  next
    case False
    then have "take n (as @ bs) = as @ take (n - length as) bs" by simp
    then show ?thesis using assms(2) by (simp add: safe_def replay_append)
  qed
qed

lemma safe_Cons:
  assumes "resume_invariant d" "safe (apply_event d e) es"
  shows "safe d (e # es)"
  unfolding safe_def
proof
  fix n
  show "resume_invariant (replay d (take n (e # es)))"
    using assms by (cases n) (simp_all add: safe_def replay_Nil replay_Cons)
qed

lemma loaded_apply: "\<not> on_checkpoint ev \<Longrightarrow> loaded (apply_event d ev) = loaded d"
  by (cases ev rule: on_checkpoint.cases) (simp_all add: loaded_def)

lemma loaded_opened: "loaded (apply_event d (Opened CheckpointFile)) = Inr (JArr [])"
  by (simp add: loaded_def load_checkpoint_def processed_files_of_def empty_checkpoint_def)

lemma loaded_written:
  "loaded (apply_event d (Written CheckpointFile (checkpoint_json pf))) = Inr pf"
  by (simp add: loaded_def load_checkpoint_def processed_files_of_def checkpoint_json_def)

lemma completed_apply:
  assumes "spares ys ev" "JStr f \<in> set ys" "completed d f"
  shows "completed (apply_event d ev) f"
  using assms by (cases "(ys, ev)" rule: spares.cases) (auto simp: completed_def)

lemma completed_checkpoint:
  assumes "on_checkpoint ev"
  shows "completed (apply_event d ev) f = completed d f"
  using assms by (cases ev rule: on_checkpoint.cases) (simp_all add: completed_def)

lemma spares_not_checkpoint: "spares ys ev \<Longrightarrow> \<not> on_checkpoint ev"
  by (cases ev rule: on_checkpoint.cases) simp_all

lemma agrees_invariant:
  assumes "agrees ys d"
  shows "resume_invariant d"
proof -
  from assms obtain zs where z: "loaded d = Inr (JArr zs)" "set zs \<subseteq> set ys"
    by (auto simp: agrees_def lists_def)
  then have "checkpointed d = zs"
    by (simp add: checkpointed_def)
  with z assms show ?thesis
    by (auto simp: agrees_def lists_def resume_invariant_def split: json.splits)
qed

lemma agrees_spared:
  assumes "agrees ys d" "spares ys ev"
  shows "agrees ys (apply_event d ev)"
  unfolding agrees_def
proof (intro conjI allI impI)
  fix f assume "JStr f \<in> set ys"
  with assms show "completed (apply_event d ev) f"
    by (simp add: agrees_def completed_apply)
next
  have "loaded (apply_event d ev) = loaded d"
    using assms(2) by (simp add: loaded_apply spares_not_checkpoint)
  with assms(1) show "lists ys (apply_event d ev)"
    by (simp add: agrees_def lists_def)
qed

lemma agrees_spared_list:
  assumes "agrees ys d" "\<forall>ev \<in> set evs. spares ys ev"
  shows "agrees ys (replay d evs) \<and> safe d evs"
  using assms
proof (induction evs arbitrary: d)
  case Nil
  then show ?case by (simp add: replay_Nil safe_Nil agrees_invariant)
next
  case (Cons ev evs)
  then have "agrees ys (apply_event d ev)"
    by (simp add: agrees_spared)
  with Cons show ?case
    by (simp add: replay_Cons safe_Cons agrees_invariant)
qed

lemma agrees_grow:
  assumes "agrees ys d" "completed d f"
  shows "agrees (ys @ [JStr f]) d"
  using assms by (auto simp: agrees_def lists_def)

lemma agrees_checkpoint_opened:
  assumes "agrees ys d"
  shows "agrees ys (apply_event d (Opened CheckpointFile))"
  using assms by (simp add: agrees_def lists_def completed_checkpoint loaded_opened del: apply_event.simps)

lemma agrees_checkpoint_written:
  assumes "agrees ys d"
  shows "agrees ys (apply_event d (Written CheckpointFile (checkpoint_json (JArr ys))))"
  using assms by (simp add: agrees_def lists_def completed_checkpoint loaded_written del: apply_event.simps)

lemma agrees_save_checkpoint:
  assumes "agrees ys d"
  shows "agrees ys (replay d (fst (write_file io CheckpointFile (checkpoint_json (JArr ys)))))
       \<and> safe d (fst (write_file io CheckpointFile (checkpoint_json (JArr ys))))"
proof -
  have 1: "agrees ys (apply_event d (Opened CheckpointFile))"
    using assms by (rule agrees_checkpoint_opened)
  then have 2: "agrees ys (apply_event (apply_event d (Opened CheckpointFile))
      (Written CheckpointFile (checkpoint_json (JArr ys))))"
    by (rule agrees_checkpoint_written)
  note inv = agrees_invariant [OF assms] agrees_invariant [OF 1] agrees_invariant [OF 2]
  show ?thesis
  proof (cases io)
    case Succeeds
    then show ?thesis
      using assms 1 2 inv by (simp add: replay_Cons replay_Nil safe_Cons safe_Nil)
  next
    case (FailsAtOpen e)
    then show ?thesis
      using assms inv by (simp add: replay_Nil safe_Nil)
  next
    case (FailsMidway e)
    then show ?thesis
      using assms 1 inv by (simp add: replay_Cons replay_Nil safe_Cons safe_Nil)
  qed
qed

subsection \<open>The journal of a run\<close>

lemma grown_Nil: "grown zs [] = zs"
  by (simp add: grown_def)

lemma grown_append: "grown zs (es @ es') = grown (grown zs es) es'"
  by (simp add: grown_def)

lemma grown_Cons: "grown zs (e # es) = grown (grown zs [e]) es"
  by (simp add: grown_def)

lemma follows_append: "follows zs (es @ es') \<longleftrightarrow> follows zs es \<and> follows (grown zs es) es'"
proof (induction es arbitrary: zs)
  case Nil
  show ?case by (simp add: grown_Nil)
next
  case (Cons e es)
  have "grown (grown zs [e]) es = grown zs (e # es)"
    by (simp add: grown_def)
  with Cons show ?case by simp
qed

lemma follows_snoc: "follows zs (es @ [e]) \<longleftrightarrow> follows zs es \<and> recorded (grown zs es) e"
  by (simp add: follows_append)

lemma trace_snoc: "trace (s\<lparr>journal := journal s @ [e]\<rparr>) = trace s @ effects e"
  by (simp add: trace_def)

lemma sound_fresh: "sound w xs [] (fresh_run (JArr xs))"
  by (simp add: sound_def fresh_run_def grown_def)

lemma sound_step:
  assumes "sound w xs ds s" "raised s = None"
  shows "sound w xs (ds @ [f]) (iteration loads (w f) f s)"
proof -
  let ?zs = "grown xs (journal s)"
  have pf: "processed_files s = JArr ?zs" and fo: "follows xs (journal s)"
    and it: "map item (journal s) = ds"
    and noinl: "\<forall>x \<in> set (journal s). \<forall>e. outcome x \<noteq> Inl e"
    using assms by (auto simp: sound_def)
  from pf show ?thesis
  proof (cases rule: iteration_shape [where f = f and loads = loads and env = "w f"])
    case skipped
    show ?thesis
      unfolding skipped(2) using skipped(1) pf fo it noinl assms(2)
      by (simp add: sound_def follows_snoc recorded_def grown_def)
  next
    case (processed sent v)
    have "recorded ?zs \<lparr>item = f,
               effects = map (Requested f) sent @
                 [Opened (OutputFile (output_name f)), Written (OutputFile (output_name f)) v] @
                 fst (write_file (cp_io (w f)) CheckpointFile
                        (checkpoint_json (JArr (?zs @ [JStr f])))),
               outcome = Inr Processed\<rparr>"
      unfolding recorded_def using processed(1) by (simp del: append.simps) blast
    then show ?thesis
      unfolding processed(2) using pf fo it noinl assms(2)
      by (simp add: sound_def follows_snoc grown_def)
  next
    case (errored evs)
    show ?thesis
      unfolding errored(3) using errored(1,2) pf fo it noinl assms(2)
      by (simp add: sound_def follows_snoc recorded_def grown_def)
  next
    case (failed evs e)
    show ?thesis
      unfolding failed(4) using failed(1,2,3) pf fo it noinl
      by (simp add: sound_def follows_snoc recorded_def grown_def)
  qed
qed

lemma sound_run:
  "\<exists>ds. prefix ds fs \<and> sound w xs ds (process_each loads w fs (fresh_run (JArr xs)))
     \<and> (raised (process_each loads w fs (fresh_run (JArr xs))) = None \<longrightarrow> ds = fs)"
proof (rule process_each_invariant)
  show "sound w xs [] (fresh_run (JArr xs))" by (rule sound_fresh)
  show "raised (fresh_run (JArr xs)) = None" by (simp add: fresh_run_def)
  show "sound w xs (ds @ [f]) (iteration loads (w f) f s)"
    if "sound w xs ds s" "raised s = None" for ds f s
    using that by (rule sound_step)
qed

lemma mild_spares:
  assumes "mild f ev" "\<forall>g. JStr g \<in> set zs \<longrightarrow> output_name g \<noteq> output_name f"
  shows "spares zs ev"
  using assms by (auto simp: mild_def)

lemma replay_snoc: "replay d (evs @ [ev]) = apply_event (replay d evs) ev"
  by (simp add: replay_def)

lemma entry_on_disk:
  assumes rec: "recorded zs e" and ag: "agrees zs d"
    and apart: "\<forall>g. JStr g \<in> set zs \<longrightarrow> g \<noteq> item e \<longrightarrow> output_name g \<noteq> output_name (item e)"
  shows "agrees (grown zs [e]) (replay d (effects e)) \<and> safe d (effects e)"
proof -
  consider (was_skipped) "outcome e = Inr Skipped" | (was_processed) "outcome e = Inr Processed"
    | (other) "outcome e \<noteq> Inr Skipped" "outcome e \<noteq> Inr Processed"
    by blast
  then show ?thesis
  proof cases
    case was_skipped
    with rec have "effects e = []" by (simp add: recorded_def)
    with was_skipped ag show ?thesis
      by (simp add: grown_def replay_Nil safe_Nil agrees_invariant)
  next
    case other
    with rec have n: "JStr (item e) \<notin> set zs" and m: "\<forall>ev \<in> set (effects e). mild (item e) ev"
      by (simp_all add: recorded_def)
    from n apart have "\<forall>g. JStr g \<in> set zs \<longrightarrow> output_name g \<noteq> output_name (item e)"
      by auto
    with m have "\<forall>ev \<in> set (effects e). spares zs ev"
      using mild_spares by blast
    with ag have "agrees zs (replay d (effects e)) \<and> safe d (effects e)"
      by (rule agrees_spared_list)
    with other show ?thesis
      by (simp add: grown_def)
  next
    case was_processed
    let ?f = "item e"
    let ?O = "OutputFile (output_name ?f)"
    from rec was_processed obtain sent v io where n: "JStr ?f \<notin> set zs"
      and eff: "effects e = (map (Requested ?f) sent @ [Opened ?O]) @ [Written ?O v] @
        fst (write_file io CheckpointFile (checkpoint_json (JArr (zs @ [JStr ?f]))))"
      by (auto simp: recorded_def)
    let ?A = "map (Requested ?f) sent @ [Opened ?O]"
    let ?C = "fst (write_file io CheckpointFile (checkpoint_json (JArr (zs @ [JStr ?f]))))"
    from n apart have ap: "\<forall>g. JStr g \<in> set zs \<longrightarrow> output_name g \<noteq> output_name ?f"
      by auto
    then have "\<forall>ev \<in> set (?A @ [Written ?O v]). spares zs ev"
      by auto
    with ag have 1: "agrees zs (replay d (?A @ [Written ?O v]))" and s1: "safe d (?A @ [Written ?O v])"
      using agrees_spared_list by blast+
    have "completed (replay d (?A @ [Written ?O v])) ?f"
      by (simp only: replay_snoc) (simp add: completed_def)
    with 1 have 2: "agrees (zs @ [JStr ?f]) (replay d (?A @ [Written ?O v]))"
      by (rule agrees_grow)
    from agrees_save_checkpoint [OF 2, of io]
    have 3: "agrees (zs @ [JStr ?f]) (replay (replay d (?A @ [Written ?O v])) ?C)"
      and s3: "safe (replay d (?A @ [Written ?O v])) ?C"
      by simp_all
    have e2: "effects e = (?A @ [Written ?O v]) @ ?C"
      using eff by simp
    have "safe d (effects e)"
      unfolding e2 using s1 s3 by (rule safe_append)
    moreover have "agrees (grown zs [e]) (replay d (effects e))"
      unfolding e2 using 3 was_processed by (simp only: replay_append) (simp add: grown_def)
    ultimately show ?thesis by simp
  qed
qed

lemma journal_on_disk:
  assumes "follows zs es" "agrees zs d"
    and "\<forall>e \<in> set es. \<forall>g. JStr g \<in> set (grown zs es) \<longrightarrow> g \<noteq> item e
           \<longrightarrow> output_name g \<noteq> output_name (item e)"
  shows "agrees (grown zs es) (replay d (concat (map effects es)))
       \<and> safe d (concat (map effects es))"
  using assms
proof (induction es arbitrary: zs d)
  case Nil
  then show ?case by (simp add: grown_Nil replay_Nil safe_Nil agrees_invariant)
next
  case (Cons e es)
  have sub: "set zs \<subseteq> set (grown zs (e # es))"
    by (auto simp: grown_def)
  have g: "grown (grown zs [e]) es = grown zs (e # es)"
    by (simp add: grown_def)
  have "agrees (grown zs [e]) (replay d (effects e)) \<and> safe d (effects e)"
  proof (rule entry_on_disk)
    show "recorded zs e" using Cons.prems(1) by simp
    show "agrees zs d" by (rule Cons.prems(2))
    show "\<forall>g. JStr g \<in> set zs \<longrightarrow> g \<noteq> item e \<longrightarrow> output_name g \<noteq> output_name (item e)"
      using Cons.prems(3) sub by auto
  qed
  then have a: "agrees (grown zs [e]) (replay d (effects e))" and s: "safe d (effects e)"
    by simp_all
  have "agrees (grown (grown zs [e]) es) (replay (replay d (effects e)) (concat (map effects es)))
       \<and> safe (replay d (effects e)) (concat (map effects es))"
  proof (rule Cons.IH [OF _ a])
    show "follows (grown zs [e]) es" using Cons.prems(1) by simp
    show "\<forall>e' \<in> set es. \<forall>g. JStr g \<in> set (grown (grown zs [e]) es) \<longrightarrow> g \<noteq> item e'
           \<longrightarrow> output_name g \<noteq> output_name (item e')"
      unfolding g using Cons.prems(3) by simp
  qed
  then show ?case
    using s by (simp add: g replay_append safe_append)
qed

lemma loaded_replay:
  assumes "\<forall>ev \<in> set evs. \<not> on_checkpoint ev"
  shows "loaded (replay d evs) = loaded d"
  using assms
proof (induction evs arbitrary: d)
  case Nil
  show ?case by (simp add: replay_Nil)
next
  case (Cons ev evs)
  then show ?case
    by (simp add: replay_Cons loaded_apply del: apply_event.simps)
qed

lemma mild_not_checkpoint: "mild f ev \<Longrightarrow> \<not> on_checkpoint ev"
  by (auto simp: mild_def)

lemma lists_save_checkpoint:
  assumes "lists ys d"
  shows "lists ys (replay d (fst (write_file io CheckpointFile (checkpoint_json (JArr ys)))))"
proof (cases io)
  case Succeeds
  then show ?thesis
    by (simp add: replay_Cons replay_Nil lists_def loaded_written del: apply_event.simps)
next
  case (FailsAtOpen e)
  with assms show ?thesis by (simp add: replay_Nil)
next
  case (FailsMidway e)
  then show ?thesis
    by (simp add: replay_Cons replay_Nil lists_def loaded_opened del: apply_event.simps)
qed

lemma lists_mono: "lists ys d \<Longrightarrow> set ys \<subseteq> set ys' \<Longrightarrow> lists ys' d"
  by (auto simp: lists_def)

lemma entry_lists:
  assumes rec: "recorded zs e" and li: "lists zs d"
  shows "lists (grown zs [e]) (replay d (effects e))"
proof -
  consider (was_skipped) "outcome e = Inr Skipped" | (was_processed) "outcome e = Inr Processed"
    | (other) "outcome e \<noteq> Inr Skipped" "outcome e \<noteq> Inr Processed"
    by blast
  then show ?thesis
  proof cases
    case was_skipped
    with rec have "effects e = []" by (simp add: recorded_def)
    with was_skipped li show ?thesis
      by (simp add: grown_def replay_Nil)
  next
    case other
    with rec have "\<forall>ev \<in> set (effects e). mild (item e) ev"
      by (simp add: recorded_def)
    then have "\<forall>ev \<in> set (effects e). \<not> on_checkpoint ev"
      using mild_not_checkpoint by blast
    then have "loaded (replay d (effects e)) = loaded d"
      by (rule loaded_replay)
    with other li show ?thesis
      by (simp add: grown_def lists_def)
  next
    case was_processed
    let ?f = "item e"
    let ?O = "OutputFile (output_name ?f)"
    from rec was_processed obtain sent v io where
      eff: "effects e = (map (Requested ?f) sent @ [Opened ?O, Written ?O v]) @
        fst (write_file io CheckpointFile (checkpoint_json (JArr (zs @ [JStr ?f]))))"
      by (auto simp: recorded_def)
    let ?A = "map (Requested ?f) sent @ [Opened ?O, Written ?O v]"
    have "\<forall>ev \<in> set ?A. \<not> on_checkpoint ev"
      by auto
    then have "loaded (replay d ?A) = loaded d"
      by (rule loaded_replay)
    with li have "lists zs (replay d ?A)"
      by (simp add: lists_def)
    then have "lists (zs @ [JStr ?f]) (replay d ?A)"
      by (rule lists_mono) auto
    then have "lists (zs @ [JStr ?f]) (replay (replay d ?A)
        (fst (write_file io CheckpointFile (checkpoint_json (JArr (zs @ [JStr ?f]))))))"
      by (rule lists_save_checkpoint)
    then show ?thesis
      unfolding eff using was_processed by (simp only: replay_append) (simp add: grown_def)
  qed
qed

lemma journal_lists:
  assumes "follows zs es" "lists zs d"
  shows "lists (grown zs es) (replay d (concat (map effects es)))"
  using assms
proof (induction es arbitrary: zs d)
  case Nil
  then show ?case by (simp add: grown_Nil replay_Nil)
next
  case (Cons e es)
  have g: "grown (grown zs [e]) es = grown zs (e # es)"
    by (simp add: grown_def)
  have "lists (grown zs [e]) (replay d (effects e))"
    using Cons.prems by (simp add: entry_lists)
  then have "lists (grown (grown zs [e]) es)
      (replay (replay d (effects e)) (concat (map effects es)))"
    using Cons.IH Cons.prems(1) by simp
  then show ?case
    by (simp add: g replay_append)
qed

lemma follows_recorded:
  assumes "follows zs (es1 @ e # es2)"
  shows "recorded (grown zs es1) e"
  using assms by (simp add: follows_append)


lemma set_py_slice: "set (py_slice xs a b) \<subseteq> set xs"
  by (auto simp: py_slice_def Let_def dest: in_set_takeD in_set_dropD)

lemma distinct_py_slice: "distinct xs \<Longrightarrow> distinct (py_slice xs a b)"
  by (simp add: py_slice_def Let_def)

lemma set_select_files: "set (select_files fs a b l t) \<subseteq> set fs"
  using set_py_slice [of fs]
  by (auto simp: select_files_def split: option.splits prod.splits)

lemma distinct_select_files: "distinct fs \<Longrightarrow> distinct (select_files fs a b l t)"
  by (simp add: select_files_def distinct_py_slice split: option.splits prod.splits)

lemma run_from_list:
  assumes "processed_files_of (load_checkpoint cp) = Inr (JArr xs)"
  shows "process_all_files_sequentially loads w names cp a b l t =
     process_each loads w (select_files (sort names) a b l t) (fresh_run (JArr xs))"
  using assms by (simp add: process_all_files_sequentially_def)

subsection \<open>Whole runs\<close>

lemma run_sound:
  assumes "processed_files_of (load_checkpoint cp) = Inr (JArr xs)"
  shows "\<exists>ds. prefix ds (select_files (sort names) a b l t)
     \<and> sound w xs ds (process_all_files_sequentially loads w names cp a b l t)
     \<and> (raised (process_all_files_sequentially loads w names cp a b l t) = None
          \<longrightarrow> ds = select_files (sort names) a b l t)"
  unfolding run_from_list [OF assms] by (rule sound_run)


lemma recorded_somewhere:
  assumes fo: "follows xs es" and mem: "e \<in> set es"
  shows "\<exists>zs. recorded zs e"
proof -
  from mem obtain es1 es2 where es: "es = es1 @ e # es2"
    by (auto dest: split_list)
  with fo have "recorded (grown xs es1) e"
    by (simp add: follows_recorded)
  then show ?thesis ..
qed

lemma run_items_distinct:
  assumes "processed_files_of (load_checkpoint cp) = Inr (JArr xs)" and "distinct names"
  shows "follows xs (journal (process_all_files_sequentially loads w names cp a b l t))
    \<and> processed_files (process_all_files_sequentially loads w names cp a b l t)
        = JArr (grown xs (journal (process_all_files_sequentially loads w names cp a b l t)))
    \<and> distinct (map item (journal (process_all_files_sequentially loads w names cp a b l t)))"
proof -
  let ?r = "process_all_files_sequentially loads w names cp a b l t"
  from run_sound [OF assms(1), of names a b l t w loads]
  obtain ds where pre: "prefix ds (select_files (sort names) a b l t)"
    and so: "sound w xs ds ?r"
    by (elim exE conjE)
  have "distinct (select_files (sort names) a b l t)"
    using assms(2) by (simp add: distinct_select_files)
  with pre have "distinct ds"
    by (auto simp: prefix_def)
  with so show ?thesis
    by (simp add: sound_def)
qed

lemma not_skipped_when_new:
  assumes fo: "follows zs es" and di: "distinct (map item es)"
    and mem: "e \<in> set es" and new: "JStr (item e) \<notin> set zs"
  shows "outcome e \<noteq> Inr Skipped"
proof
  assume sk: "outcome e = Inr Skipped"
  from mem obtain es1 es2 where es: "es = es1 @ e # es2"
    by (auto dest: split_list)
  with fo have "recorded (grown zs es1) e"
    by (simp add: follows_recorded)
  with sk have "JStr (item e) \<in> set (grown zs es1)"
    by (simp add: recorded_def)
  with new obtain e1 where e1: "e1 \<in> set es1" "item e1 = item e"
    by (auto simp: grown_def)
  from di es have "item e \<notin> item ` set es1"
    by simp
  with e1 show False
    by (metis imageI)
qed

lemma not_grown_unless_processed:
  assumes di: "distinct (map item es)" and mem: "e \<in> set es"
    and np: "outcome e \<noteq> Inr Processed" and new: "JStr (item e) \<notin> set zs"
  shows "JStr (item e) \<notin> set (grown zs es)"
proof
  assume "JStr (item e) \<in> set (grown zs es)"
  with new obtain e1 where e1: "e1 \<in> set es" "outcome e1 = Inr Processed" "item e1 = item e"
    by (auto simp: grown_def)
  from di have "inj_on item (set es)"
    by (simp add: distinct_map)
  with e1 mem have "e1 = e"
    by (auto dest: inj_onD)
  with e1 np show False by simp
qed

lemma not_listed_when_attempted:
  assumes fo: "follows zs es" and mem: "e \<in> set es" and ns: "outcome e \<noteq> Inr Skipped"
  shows "JStr (item e) \<notin> set zs"
proof -
  from mem obtain es1 es2 where es: "es = es1 @ e # es2"
    by (auto dest: split_list)
  with fo have "recorded (grown zs es1) e"
    by (simp add: follows_recorded)
  with ns have "JStr (item e) \<notin> set (grown zs es1)"
    by (auto simp: recorded_def split: if_splits)
  then show ?thesis
    by (simp add: grown_def)
qed

lemma lists_loaded: "loaded d = Inr (JArr xs) \<Longrightarrow> lists xs d"
  by (simp add: lists_def)

lemma run_items:
  assumes "processed_files_of (load_checkpoint cp) = Inr (JArr xs)"
  shows "set (map item (journal (process_all_files_sequentially loads w names cp a b l t)))
     \<subseteq> set names"
proof -
  let ?r = "process_all_files_sequentially loads w names cp a b l t"
  from run_sound [OF assms(1), of names a b l t w loads]
  obtain ds where pre: "prefix ds (select_files (sort names) a b l t)"
    and so: "sound w xs ds ?r"
    by (elim exE conjE)
  have "set ds \<subseteq> set (select_files (sort names) a b l t)"
    using pre by (auto simp: prefix_def)
  also have "\<dots> \<subseteq> set names"
    using set_select_files [of "sort names" a b l t] by simp
  finally show ?thesis
    using so by (simp add: sound_def)
qed

lemma grown_ids:
  assumes "JStr g \<in> set (grown zs es)"
  shows "JStr g \<in> set zs \<or> g \<in> item ` set es"
  using assms by (auto simp: grown_def)

lemma checkpoint_write_events: "\<forall>ev \<in> set (fst (write_file io CheckpointFile v)). on_checkpoint ev"
  by (cases io) simp_all

lemma agrees_start:
  assumes "loaded d = Inr (JArr xs)" "resume_invariant d"
  shows "agrees xs d"
proof -
  have "checkpointed d = xs"
    using assms(1) by (simp add: checkpointed_def)
  with assms show ?thesis
    by (auto simp: agrees_def lists_def resume_invariant_def)
qed


lemma trace_update [simp]:
  "trace (s\<lparr>journal := j\<rparr>) = concat (map effects j)"
  "trace (s\<lparr>num_skipped := n\<rparr>) = trace s"
  "trace (s\<lparr>num_errors := n\<rparr>) = trace s"
  "trace (s\<lparr>num_processed := n\<rparr>) = trace s"
  "trace (s\<lparr>processed_files := p\<rparr>) = trace s"
  "trace (s\<lparr>raised := x\<rparr>) = trace s"
  by (simp_all add: trace_def)

lemma saved_step:
  assumes "saved d s" "cp_io env = Succeeds"
  shows "saved d (iteration loads env f s)"
proof -
  from assms(1) obtain ys where pf: "processed_files s = JArr ys"
    and lo: "loaded (replay d (trace s)) = Inr (JArr ys)"
    by (auto simp: saved_def)
  have tr: "concat (map effects (journal s)) = trace s"
    by (simp add: trace_def)
  from pf show ?thesis
  proof (cases rule: iteration_shape [where f = f and loads = loads and env = env])
    case skipped
    show ?thesis
      unfolding skipped(2) using pf lo by (simp add: saved_def tr)
  next
    case (processed sent v)
    let ?A = "trace s @ map (Requested f) sent @
        [Opened (OutputFile (output_name f)), Written (OutputFile (output_name f)) v,
         Opened CheckpointFile]"
    have "loaded (replay d (?A @ [Written CheckpointFile (checkpoint_json (JArr (ys @ [JStr f])))]))
        = Inr (JArr (ys @ [JStr f]))"
      by (simp only: replay_snoc loaded_written)
    then show ?thesis
      unfolding processed(2) using assms(2) by (simp add: saved_def tr)
  next
    case (errored evs)
    then have "\<forall>ev \<in> set evs. \<not> on_checkpoint ev"
      using mild_not_checkpoint by blast
    then have "loaded (replay (replay d (trace s)) evs) = loaded (replay d (trace s))"
      by (rule loaded_replay)
    then show ?thesis
      unfolding errored(3) using pf lo by (simp add: saved_def tr replay_append)
  next
    case (failed evs e)
    then have "\<forall>ev \<in> set evs. \<not> on_checkpoint ev"
      using mild_not_checkpoint by blast
    then have "loaded (replay (replay d (trace s)) evs) = loaded (replay d (trace s))"
      by (rule loaded_replay)
    then show ?thesis
      unfolding failed(4) using pf lo by (simp add: saved_def tr replay_append)
  qed
qed

lemma saved_run:
  assumes "loaded d = Inr (JArr xs)" and "\<forall>f \<in> set fs. cp_io (w f) = Succeeds"
  shows "saved d (process_each loads w fs (fresh_run (JArr xs)))"
proof -
  have "\<exists>ds. prefix ds fs \<and> (\<lambda>ds. saved d) ds (process_each loads w fs (fresh_run (JArr xs)))
     \<and> (raised (process_each loads w fs (fresh_run (JArr xs))) = None \<longrightarrow> ds = fs)"
  proof (rule process_each_invariant)
    show "saved d (fresh_run (JArr xs))"
      using assms(1) by (simp add: saved_def fresh_run_def trace_def replay_Nil)
    show "raised (fresh_run (JArr xs)) = None"
      by (simp add: fresh_run_def)
    show "saved d (iteration loads (w f) f s)" if "saved d s" "prefix (ds @ [f]) fs" for ds f s
    proof -
      have "f \<in> set fs"
        using that(2) by (auto simp: prefix_def)
      with assms(2) have "cp_io (w f) = Succeeds" by simp
      with that(1) show ?thesis by (rule saved_step)
    qed
  qed
  then show ?thesis by (elim exE conjE)
qed

subsection \<open>Runs in which nothing fails\<close>



lemma replay_requests: "replay d (map (Requested f) ns) = d"
  by (induction ns) (simp_all add: replay_Nil replay_Cons)

lemma replay_smooth_entry:
  "replay d (map (Requested f) ns @
        [Opened (OutputFile p), Written (OutputFile p) v,
         Opened CheckpointFile, Written CheckpointFile c])
     = d\<lparr>files := (files d)(OutputFile p := Holds v, CheckpointFile := Holds c)\<rparr>"
  by (simp add: replay_append replay_requests replay_Cons replay_Nil)

lemma replay_smooth_entry_split:
  "replay (replay d (map (Requested f) ns))
        [Opened (OutputFile p), Written (OutputFile p) v,
         Opened CheckpointFile, Written CheckpointFile c]
     = d\<lparr>files := (files d)(OutputFile p := Holds v, CheckpointFile := Holds c)\<rparr>"
  by (simp add: replay_requests replay_Cons replay_Nil)












subsection \<open>The exam-pack driver when nothing fails\<close>

declare process_batches.simps [simp del]

lemma exam_number_loaded:
  "load_html_file_exam p f = Inr q \<Longrightarrow> question_number q = exam_number f"
  by (auto simp: load_html_file_exam_def exam_number_def split: sum.splits)












subsection \<open>The resume invariant\<close>

text \<open>
  C1, as the code has it. Take a run that starts from a disk on which the checkpoint, as
  \<open>load_checkpoint\<close> reads it, holds a list, every identifier in that list has its
  output file in full, and no two identifiers among the source files and that list share
  an output file name. Then: for an item recorded as processed the effects are the
  requests, then the output file opened and written in full, and only then the write of
  a checkpoint whose list ends with the item; no other item touches the checkpoint
  file; after every prefix of the effects of the run, so wherever the process is killed,
  every identifier in the checkpoint file has its output file in full; at the end every
  processed item is in the list in memory and has its output file; and when the
  checkpoint writes succeed the checkpoint file holds the list in memory.
\<close>

theorem resume_invariant_kept:
  fixes loads :: decoder and w :: world and names :: "string list"
    and a b l :: "int option" and t :: bool and d :: disk
  defines "r \<equiv> process_all_files_sequentially loads w names (files d CheckpointFile) a b l t"
  assumes "loaded d = Inr (JArr xs)"
    and "resume_invariant d"
    and "inj_on output_name (set names \<union> {f. JStr f \<in> set xs})"
  shows "(\<forall>e \<in> set (journal r). outcome e = Inr Processed \<longrightarrow>
            (\<exists>sent v io zs. effects e =
               map (Requested (item e)) sent @
               [Opened (OutputFile (output_name (item e))),
                Written (OutputFile (output_name (item e))) v] @
               fst (write_file io CheckpointFile
                      (checkpoint_json (JArr (zs @ [JStr (item e)]))))))
    \<and> (\<forall>e \<in> set (journal r). outcome e \<noteq> Inr Processed \<longrightarrow>
            (\<forall>ev \<in> set (effects e). \<not> on_checkpoint ev))
    \<and> (\<forall>n. resume_invariant (replay d (take n (trace r))))
    \<and> (\<forall>e \<in> set (journal r). outcome e = Inr Processed \<longrightarrow>
            (\<exists>ys. processed_files r = JArr ys \<and> JStr (item e) \<in> set ys)
            \<and> completed (replay d (trace r)) (item e))
    \<and> ((\<forall>f \<in> set names. cp_io (w f) = Succeeds) \<longrightarrow>
            loaded (replay d (trace r)) = Inr (processed_files r))"
proof -
  have cp: "processed_files_of (load_checkpoint (files d CheckpointFile)) = Inr (JArr xs)"
    using assms(2) by (simp add: loaded_def)
  from run_sound [OF cp, of names a b l t w loads]
  obtain ds where so: "sound w xs ds r"
    unfolding r_def by (elim exE conjE)
  then have fo: "follows xs (journal r)" and pf: "processed_files r = JArr (grown xs (journal r))"
    by (simp_all add: sound_def)
  have items: "item e \<in> set names" if "e \<in> set (journal r)" for e
    using run_items [OF cp, of loads w names a b l t] that unfolding r_def by auto
  have 1: "\<exists>sent v io zs. effects e =
               map (Requested (item e)) sent @
               [Opened (OutputFile (output_name (item e))),
                Written (OutputFile (output_name (item e))) v] @
               fst (write_file io CheckpointFile
                      (checkpoint_json (JArr (zs @ [JStr (item e)]))))"
    if "e \<in> set (journal r)" "outcome e = Inr Processed" for e
  proof -
    from recorded_somewhere [OF fo that(1)] obtain zs where "recorded zs e" ..
    with that(2) show ?thesis
      unfolding recorded_def by (simp del: append.simps) blast
  qed
  have 2: "\<not> on_checkpoint ev"
    if "e \<in> set (journal r)" "outcome e \<noteq> Inr Processed" "ev \<in> set (effects e)" for e ev
  proof -
    from recorded_somewhere [OF fo that(1)] obtain zs where "recorded zs e" ..
    with that(2,3) have "mild (item e) ev"
      by (auto simp: recorded_def split: if_splits)
    then show ?thesis by (rule mild_not_checkpoint)
  qed
  have apart: "\<forall>e \<in> set (journal r). \<forall>g. JStr g \<in> set (grown xs (journal r)) \<longrightarrow> g \<noteq> item e
           \<longrightarrow> output_name g \<noteq> output_name (item e)"
  proof (intro ballI allI impI)
    fix e g
    assume e: "e \<in> set (journal r)" and g: "JStr g \<in> set (grown xs (journal r))"
      and ne: "g \<noteq> item e"
    from grown_ids [OF g] items have "g \<in> set names \<union> {f. JStr f \<in> set xs}"
      by auto
    moreover from items [OF e] have "item e \<in> set names \<union> {f. JStr f \<in> set xs}"
      by simp
    ultimately show "output_name g \<noteq> output_name (item e)"
      using assms(4) ne by (auto dest: inj_onD)
  qed
  from journal_on_disk [OF fo agrees_start [OF assms(2,3)] apart]
  have ag: "agrees (grown xs (journal r)) (replay d (trace r))" and sa: "safe d (trace r)"
    by (simp_all add: trace_def)
  from sa have 3: "\<forall>n. resume_invariant (replay d (take n (trace r)))"
    by (simp add: safe_def)
  have 4: "(\<exists>ys. processed_files r = JArr ys \<and> JStr (item e) \<in> set ys)
            \<and> completed (replay d (trace r)) (item e)"
    if "e \<in> set (journal r)" "outcome e = Inr Processed" for e
  proof -
    have g: "JStr (item e) \<in> set (grown xs (journal r))"
      using that by (auto simp: grown_def)
    with ag have "completed (replay d (trace r)) (item e)"
      by (simp add: agrees_def)
    with pf g show ?thesis by simp
  qed
  have 5: "loaded (replay d (trace r)) = Inr (processed_files r)"
    if "\<forall>f \<in> set names. cp_io (w f) = Succeeds"
  proof -
    have "\<forall>f \<in> set (select_files (sort names) a b l t). cp_io (w f) = Succeeds"
      using that set_select_files [of "sort names" a b l t] by auto
    from saved_run [OF assms(2) this, of loads] show ?thesis
      unfolding r_def run_from_list [OF cp] by (simp add: saved_def)
  qed
  from 1 2 3 4 5 show ?thesis by simp
qed

theorem resume_invariant_kept_witness:
  "loaded blank = Inr (JArr [])
   \<and> resume_invariant blank
   \<and> resume_invariant (replay blank (take 4 (trace
        (process_all_files_sequentially rejecting (always calm) [''cr_2.html'', ''cr_1.html'']
           (files blank CheckpointFile) None None None False))))
   \<and> loaded (replay blank (trace
        (process_all_files_sequentially rejecting (always calm) [''cr_2.html'', ''cr_1.html'']
           (files blank CheckpointFile) None None None False)))
       = Inr (JArr [JStr ''cr_1.html'', JStr ''cr_2.html''])"
proof -
  have h1: "loaded blank = Inr (JArr [])"
    by code_simp
  have h2: "resume_invariant blank"
    by code_simp
  have o: "output_name ''cr_2.html'' \<noteq> output_name ''cr_1.html''"
    by code_simp
  then have h3: "inj_on output_name (set [''cr_2.html'', ''cr_1.html''] \<union> {f. JStr f \<in> set []})"
    by simp
  have h4: "\<forall>f \<in> set [''cr_2.html'', ''cr_1.html'']. cp_io (always calm f) = Succeeds"
    by (simp add: always_def calm_def)
  have p: "processed_files
        (process_all_files_sequentially rejecting (always calm) [''cr_2.html'', ''cr_1.html'']
           (files blank CheckpointFile) None None None False)
       = JArr [JStr ''cr_1.html'', JStr ''cr_2.html'']"
    by code_simp
  show ?thesis
    using resume_invariant_kept [where d = blank and xs = "[]"
        and names = "[''cr_2.html'', ''cr_1.html'']" and loads = rejecting and w = "always calm"
        and a = None and b = None and l = None and t = False, OF h1 h2 h3] h1 h2 h4 p
    by simp
qed

text \<open>
  C1 as the specification words it fails in two ways. The driver trusts the checkpoint:
  an identifier listed at the start whose output file is not there is skipped, and stays
  listed without an output file throughout the run. And two source files can share an
  output file name, since every occurrence of \<open>.html\<close> in the name is replaced: the
  second item then empties the output file of the first, which is already listed.
\<close>

theorem resume_invariant_counterexample:
  "files stale CheckpointFile = Holds (checkpoint_json (JArr [JStr ''cr_1.html'']))
   \<and> journal (process_all_files_sequentially rejecting (always calm) [''cr_1.html'']
        (files stale CheckpointFile) None None None False)
       = [\<lparr>item = ''cr_1.html'', effects = [], outcome = Inr Skipped\<rparr>]
   \<and> checkpointed (replay stale (trace
        (process_all_files_sequentially rejecting (always calm) [''cr_1.html'']
           (files stale CheckpointFile) None None None False))) = [JStr ''cr_1.html'']
   \<and> \<not> completed (replay stale (trace
        (process_all_files_sequentially rejecting (always calm) [''cr_1.html'']
           (files stale CheckpointFile) None None None False))) ''cr_1.html''
   \<and> output_name ''a.html.html'' = output_name ''a.json.html''
   \<and> resume_invariant blank
   \<and> \<not> resume_invariant (replay blank (take 7 (trace
        (process_all_files_sequentially rejecting (always calm)
           [''a.html.html'', ''a.json.html''] (files blank CheckpointFile)
           None None None False))))"
  by code_simp

subsection \<open>An exhausted retry budget\<close>

text \<open>
  C2, as the code has it. Take an item that is not in the checkpoint and whose source
  file loads. The budget is three retries, so four requests: when the first request and
  each of the three retries fail, and the append to the error log succeeds (the one in
  the \<open>try\<close> block or, when that one fails, the one in the exception handler), the
  item is errored, one line with the timestamp and the identifier goes to the error
  log, no output file is opened, the identifier is not appended to the checkpoint, and
  the loop goes on with the next file.
\<close>

theorem retry_budget_exhausted:
  assumes "py_in f (processed_files s) = Inr False"
    and "parsed (w f) = Inr p"
    and "\<forall>n\<le>MAX_RETRIES. post (w f) n = RequestFails (m n)"
    and "log_io (w f) = None \<or> handler_log_io (w f) = None"
    and "raised s = None"
  shows "process_each loads w (f # rest) s =
     process_each loads w rest
       (s\<lparr>num_errors := num_errors s + 1,
          journal := journal s @
            [\<lparr>item = f,
              effects = map (Requested f) [0, 1, 2, 3] @
                [Logged (stamp (w f)) f
                   (case log_io (w f) of
                      None \<Rightarrow> JStr (''API request failed after 3 retries: '' @ m 3)
                    | Some e \<Rightarrow> JStr (str_of e))],
              outcome = Inr Errored\<rparr>]\<rparr>)"
proof -
  obtain qd where qd: "load_html_file (parsed (w f)) f = Inr qd"
    using assms(2) by (simp add: load_html_file_def)
  have g: "generate_response loads (post (w f)) qd 0 =
     ([0, 1, 2, 3], Inr [(''error'', JStr (''API request failed after 3 retries: '' @ m 3))])"
    using assms(3) by (rule generate_response_all_fail)
  have "process_file_sequentially loads (w f) f (processed_files s) =
     (map (Requested f) [0, 1, 2, 3] @
        [Logged (stamp (w f)) f
           (case log_io (w f) of
              None \<Rightarrow> JStr (''API request failed after 3 retries: '' @ m 3)
            | Some e \<Rightarrow> JStr (str_of e))],
      Inr Errored)"
  proof (cases "log_io (w f)")
    case None
    then show ?thesis
      using assms(1) qd g by (simp add: process_file_sequentially_def keys_def)
  next
    case (Some e)
    with assms(4) have "handler_log_io (w f) = None" by simp
    with Some show ?thesis
      using assms(1) qd g
      by (simp add: process_file_sequentially_def keys_def on_exception_def)
  qed
  then show ?thesis
    using assms(5) by (simp add: iteration_def)
qed

theorem retry_budget_exhausted_witness:
  "process_each rejecting (always down) [''cr_1.html''] (fresh_run (JArr [])) =
     (fresh_run (JArr []))
       \<lparr>num_errors := 1,
        journal :=
          [\<lparr>item = ''cr_1.html'',
            effects = map (Requested ''cr_1.html'') [0, 1, 2, 3] @
              [Logged ''2025-01-01 00:00:00'' ''cr_1.html''
                 (JStr ''API request failed after 3 retries: timed out'')],
            outcome = Inr Errored\<rparr>]\<rparr>
   \<and> process_each rejecting (always down_unlogged) [''cr_1.html''] (fresh_run (JArr [])) =
     (fresh_run (JArr []))
       \<lparr>num_errors := 1,
        journal :=
          [\<lparr>item = ''cr_1.html'',
            effects = map (Requested ''cr_1.html'') [0, 1, 2, 3] @
              [Logged ''2025-01-01 00:00:00'' ''cr_1.html''
                 (JStr ''No space left on device'')],
            outcome = Inr Errored\<rparr>]\<rparr>"
  using retry_budget_exhausted [of "''cr_1.html''" "fresh_run (JArr [])" "always down"
      sample_page "\<lambda>n. ''timed out''" rejecting "[]"]
    retry_budget_exhausted [of "''cr_1.html''" "fresh_run (JArr [])" "always down_unlogged"
      sample_page "\<lambda>n. ''timed out''" rejecting "[]"]
  by (simp add: always_def down_def down_unlogged_def calm_def fresh_run_def)

text \<open>
  C2 as the specification words it fails: after three failed requests the fourth is
  still sent, and when it is answered the item is processed.
\<close>

theorem three_failures_counterexample:
  "post flaky 0 = RequestFails ''timed out'' \<and> post flaky 1 = RequestFails ''timed out''
   \<and> post flaky 2 = RequestFails ''timed out''
   \<and> outcome (last (journal (process_each rejecting (always flaky) [''cr_1.html'']
          (fresh_run (JArr []))))) = Inr Processed
   \<and> processed_files (process_each rejecting (always flaky) [''cr_1.html'']
          (fresh_run (JArr []))) = JArr [JStr ''cr_1.html'']
   \<and> Opened (OutputFile ''processed_cr_1.json'')
       \<in> set (trace (process_each rejecting (always flaky) [''cr_1.html'']
          (fresh_run (JArr []))))"
  by code_simp

subsection \<open>A response without braces\<close>

lemma required_keys_of_manual:
  "set cr_required_keys \<subseteq> keys (manually_extract_components text qd)"
  by (simp add: cr_required_keys_def manually_extract_components_def keys_def)

lemma no_error_in_manual: "''error'' \<notin> keys (manually_extract_components text qd)"
  by (simp add: manually_extract_components_def keys_def)

lemma options_of_manual:
  "\<exists>a b c d e. map_of (manually_extract_components text qd) ''options'' =
     Some (JObj [(''A'', JStr a), (''B'', JStr b), (''C'', JStr c), (''D'', JStr d),
                 (''E'', JStr e)])"
  by (simp add: manually_extract_components_def option_texts_def Let_def)

lemma index_of_sublist: "index_of sub s \<noteq> None \<longleftrightarrow> sublist sub s"
proof (induction s)
  case Nil
  show ?case by simp
next
  case (Cons c cs)
  show ?case
  proof (cases "prefix sub (c # cs)")
    case True
    then show ?thesis by (auto simp: prefix_def)
  next
    case False
    then have "sublist sub (c # cs) \<longleftrightarrow> sublist sub cs"
      by (simp add: sublist_Cons_right)
    with False Cons show ?thesis by simp
  qed
qed

lemma contains_sublist: "contains sub s \<longleftrightarrow> sublist sub s"
  unfolding contains_def by (rule index_of_sublist)

lemma contains_slice:
  assumes "contains sub (py_slice s lo hi)"
  shows "contains sub s"
proof -
  from assms have "sublist sub (py_slice s lo hi)"
    by (simp add: contains_sublist)
  moreover have "sublist (py_slice s lo hi) s"
    unfolding py_slice_def Let_def
    by (meson sublist_drop sublist_order.order_trans sublist_take)
  ultimately have "sublist sub s"
    by (rule sublist_order.order_trans)
  then show ?thesis
    by (simp add: contains_sublist)
qed

lemma unmarked_field_empty:
  assumes "\<not> contains (quoted name) text"
  shows "field_or_empty text name = []"
  using assms
  by (simp add: field_or_empty_def scan_field_def py_find_def contains_def Let_def)

lemma option_keys: "map fst (option_texts text) = [''A'', ''B'', ''C'', ''D'', ''E'']"
  by (simp add: option_texts_def Let_def)

lemma unmarked_option_empty:
  assumes "c \<in> set ''ABCDE''"
    and "\<not> contains (quoted ''options'') text \<or> \<not> contains (quoted [c]) text"
  shows "map_of (option_texts text) [c] = Some (JStr [])"
proof (cases "0 \<le> py_find text (quoted ''options'') 0")
  case False
  with assms(1) show ?thesis
    by (auto simp: option_texts_def Let_def)
next
  case True
  then have "contains (quoted ''options'') text"
    by (auto simp: py_find_def contains_def Let_def split: option.splits if_splits)
  with assms(2) have n: "\<not> contains (quoted [c]) text"
    by simp
  let ?section = "py_slice text (Some (py_find text (quoted ''options'') 0))
      (Some (py_find text ''}'' (py_find text (quoted ''options'') 0) + 1))"
  from n have "\<not> contains (quoted [c]) ?section"
    using contains_slice by blast
  then have "field_or_empty ?section [c] = []"
    by (rule unmarked_field_empty)
  with True assms(1) show ?thesis
    by (auto simp: option_texts_def Let_def)
qed

text \<open>
  C3, as the code has it. On a response text that lacks an opening or a closing brace,
  the CR driver returns the result of manual extraction: nothing is raised, no error is
  recorded, every required key is there, the question type is Critical Reasoning, the
  options are keyed A to E, and a field or an option whose marker does not occur in the
  text is the empty string. The exam-pack driver does not extract: it returns an error
  record.
\<close>

theorem no_braces_manual_extraction:
  assumes "CHR ''{'' \<notin> set text \<or> CHR ''}'' \<notin> set text"
    and "reply n = Replies text"
    and "post env n = Replies text"
  shows "generate_response loads reply qd n = ([n], Inr (manually_extract_components text qd))
    \<and> set cr_required_keys \<subseteq> keys (manually_extract_components text qd)
    \<and> ''error'' \<notin> keys (manually_extract_components text qd)
    \<and> (\<exists>a b c d e. map_of (manually_extract_components text qd) ''options'' =
          Some (JObj [(''A'', JStr a), (''B'', JStr b), (''C'', JStr c), (''D'', JStr d),
                      (''E'', JStr e)]))
    \<and> (\<forall>name \<in> {''argument'', ''question_stem'', ''correct_answer'', ''explanation''}.
          \<not> contains (quoted name) text \<longrightarrow>
          map_of (manually_extract_components text qd) name = Some (JStr []))
    \<and> map_of (manually_extract_components text qd) ''options'' = Some (JObj (option_texts text))
    \<and> map fst (option_texts text) = [''A'', ''B'', ''C'', ''D'', ''E'']
    \<and> (\<forall>c \<in> set ''ABCDE''.
          \<not> contains (quoted ''options'') text \<or> \<not> contains (quoted [c]) text \<longrightarrow>
          map_of (option_texts text) [c] = Some (JStr []))
    \<and> map_of (manually_extract_components text qd) ''question_type''
        = Some (JStr ''Critical Reasoning'')
    \<and> generate_response_exam loads env qd n =
        ([Requested (question_number qd) n],
         Inr [(''error'', JStr ''Could not find JSON structure''),
              (''raw_response'', JStr text)])"
proof -
  have j: "json_str text = None"
    using assms(1) by (rule json_str_None)
  have 1: "generate_response loads reply qd n = ([n], Inr (manually_extract_components text qd))"
    by (subst generate_response.simps) (simp add: assms(2) parse_response_def j)
  have 2: "\<forall>name \<in> {''argument'', ''question_stem'', ''correct_answer'', ''explanation''}.
          \<not> contains (quoted name) text \<longrightarrow>
          map_of (manually_extract_components text qd) name = Some (JStr [])"
    by (simp add: manually_extract_components_def unmarked_field_empty)
  have 3: "generate_response_exam loads env qd n =
        ([Requested (question_number qd) n],
         Inr [(''error'', JStr ''Could not find JSON structure''),
              (''raw_response'', JStr text)])"
    by (subst generate_response_exam.simps) (simp add: assms(3) parse_response_exam_def j)
  have 4: "map_of (manually_extract_components text qd) ''options''
        = Some (JObj (option_texts text))"
    and 5: "map_of (manually_extract_components text qd) ''question_type''
        = Some (JStr ''Critical Reasoning'')"
    by (simp_all add: manually_extract_components_def)
  have 6: "\<forall>c \<in> set ''ABCDE''.
          \<not> contains (quoted ''options'') text \<or> \<not> contains (quoted [c]) text \<longrightarrow>
          map_of (option_texts text) [c] = Some (JStr [])"
    using unmarked_option_empty by blast
  have 7: "set cr_required_keys \<subseteq> keys (manually_extract_components text qd)"
    by (rule required_keys_of_manual)
  have 8: "''error'' \<notin> keys (manually_extract_components text qd)"
    by (rule no_error_in_manual)
  have 9: "\<exists>a b c d e. map_of (manually_extract_components text qd) ''options'' =
          Some (JObj [(''A'', JStr a), (''B'', JStr b), (''C'', JStr c), (''D'', JStr d),
                      (''E'', JStr e)])"
    by (rule options_of_manual)
  have 10: "map fst (option_texts text) = [''A'', ''B'', ''C'', ''D'', ''E'']"
    by (rule option_keys)
  show ?thesis
    using 1 2 3 4 5 6 7 8 9 10 by - (intro conjI; assumption)
qed

theorem no_braces_manual_extraction_witness:
  "generate_response rejecting (post calm) sample_question 0 =
     ([0], Inr (manually_extract_components ''The answer is B.'' sample_question))
   \<and> map_of (manually_extract_components ''The answer is B.'' sample_question) ''argument''
       = Some (JStr [])
   \<and> map_of (manually_extract_components ''The answer is B.'' sample_question) ''options''
       = Some (JObj [(''A'', JStr []), (''B'', JStr []), (''C'', JStr []), (''D'', JStr []),
                     (''E'', JStr [])])
   \<and> generate_response_exam rejecting calm_exam sample_question 0 =
        ([Requested ''1'' 0],
         Inr [(''error'', JStr ''Could not find JSON structure''),
              (''raw_response'', JStr ''The answer is B.'')])"
proof -
  have a: "CHR ''{'' \<notin> set ''The answer is B.'' \<or> CHR ''}'' \<notin> set ''The answer is B.''"
    by simp
  have b: "post calm 0 = Replies ''The answer is B.''"
    by (simp add: calm_def)
  have c: "post calm_exam 0 = Replies ''The answer is B.''"
    by (simp add: calm_exam_def)
  have d: "\<not> contains (quoted ''argument'') ''The answer is B.''"
    by code_simp
  have e: "map_of (manually_extract_components ''The answer is B.'' sample_question) ''options''
       = Some (JObj [(''A'', JStr []), (''B'', JStr []), (''C'', JStr []), (''D'', JStr []),
                     (''E'', JStr [])])"
    by code_simp
  show ?thesis
    using no_braces_manual_extraction [of "''The answer is B.''" "post calm" 0 calm_exam
        rejecting sample_question, OF a b c] d e
    by (simp add: sample_question_def)
qed

text \<open>
  C3 as the specification words it fails in the exam-pack driver: a response without
  braces becomes an error record that has none of the required keys.
\<close>

theorem no_braces_exam_counterexample:
  "CHR ''{'' \<notin> set ''The answer is B.''
   \<and> snd (generate_response_exam rejecting calm_exam sample_question 0) =
        Inr [(''error'', JStr ''Could not find JSON structure''),
             (''raw_response'', JStr ''The answer is B.'')]
   \<and> ''question'' \<notin> keys [(''error'', JStr ''Could not find JSON structure''),
                             (''raw_response'', JStr ''The answer is B.'')]"
  by code_simp

subsection \<open>A JSON object embedded in prose\<close>

text \<open>
  C4, as the code has it. When the prose before the object has no opening brace and the
  prose after it has no closing brace, the substring from the first opening brace to the
  last closing brace is exactly the object, the decoder is applied to it, and the dict
  it returns is the one the structured path goes on with.
\<close>

theorem structured_path_extracts_object:
  assumes "CHR ''{'' \<notin> set before"
    and "CHR ''}'' \<notin> set rest"
    and "loads (CHR ''{'' # body @ ''}'') = Some parsed_json"
  shows "json_str (before @ (CHR ''{'' # body @ ''}'') @ rest) = Some (CHR ''{'' # body @ ''}'')
    \<and> parse_response loads qd (before @ (CHR ''{'' # body @ ''}'') @ rest) =
        (if \<exists>key \<in> set cr_required_keys. key \<notin> keys (complete qd parsed_json)
         then manually_extract_components (before @ (CHR ''{'' # body @ ''}'') @ rest) qd
         else complete qd parsed_json)"
  using assms json_str_embedded [OF assms(1,2), of body]
  by (simp add: parse_response_def Let_def)

theorem structured_path_extracts_object_witness:
  "json_str (''Here you are: '' @ (CHR ''{'' # sample_body @ ''}'') @ '' Good luck!'')
     = Some (CHR ''{'' # sample_body @ ''}'')
   \<and> map_of (parse_response sample_decoder sample_question
         (''Here you are: '' @ (CHR ''{'' # sample_body @ ''}'') @ '' Good luck!''))
        ''argument'' = Some (JStr ''All cats purr.'')
   \<and> ''extraction_note'' \<notin> keys (parse_response sample_decoder sample_question
         (''Here you are: '' @ (CHR ''{'' # sample_body @ ''}'') @ '' Good luck!''))"
proof -
  have a: "CHR ''{'' \<notin> set ''Here you are: ''" and b: "CHR ''}'' \<notin> set '' Good luck!''"
    by simp_all
  have c: "sample_decoder (CHR ''{'' # sample_body @ ''}'') = Some sample_object"
    by (simp add: sample_decoder_def)
  have d: "\<not> (\<exists>key \<in> set cr_required_keys. key \<notin> keys (complete sample_question sample_object))"
    by code_simp
  have e: "map_of (complete sample_question sample_object) ''argument'' = Some (JStr ''All cats purr.'')"
    by code_simp
  have f: "''extraction_note'' \<notin> keys (complete sample_question sample_object)"
    by code_simp
  show ?thesis
    using structured_path_extracts_object [where loads = sample_decoder
        and body = sample_body and parsed_json = sample_object and qd = sample_question
        and before = "''Here you are: ''" and rest = "'' Good luck!''", OF a b c] d e f
    by simp
qed

text \<open>
  C4 as the specification words it fails: a closing brace in the prose after the object
  moves the end of the substring, which is then not the object; the decoder rejects it
  and the result comes from manual extraction.
\<close>

theorem brace_in_prose_counterexample:
  "json_str (''Here you are: '' @ (CHR ''{'' # sample_body @ ''}'') @ '' :-}'')
     = Some ((CHR ''{'' # sample_body @ ''}'') @ '' :-}'')
   \<and> (CHR ''{'' # sample_body @ ''}'') @ '' :-}'' \<noteq> CHR ''{'' # sample_body @ ''}''
   \<and> sample_decoder (CHR ''{'' # sample_body @ ''}'') = Some sample_object
   \<and> ''extraction_note'' \<in> keys (parse_response sample_decoder sample_question
         (''Here you are: '' @ (CHR ''{'' # sample_body @ ''}'') @ '' :-}''))"
  by code_simp

subsection \<open>Skipping what the checkpoint lists\<close>



subsection \<open>Failures of one item\<close>




subsection \<open>A limited run\<close>





subsection \<open>Loading the checkpoint\<close>

text \<open>
  C8, as the code has it. \<open>load_checkpoint\<close> of the CR driver never raises: for a
  checkpoint file that is absent, unreadable or unparsable it returns the empty
  checkpoint, whose list of processed identifiers is empty, and the run starts from that
  empty list; for a file that holds a JSON value it returns that value, so the
  identifiers recorded by \<open>save_checkpoint\<close> are returned. \<open>read_checkpoint\<close> of the
  exam-pack driver does the same for a file that is absent, unparsable or present, but
  for an unreadable file it returns the empty checkpoint only when the error is a
  \<open>FileNotFoundError\<close> or a \<open>JSONDecodeError\<close>: any other error is raised, and the
  run ends with it before any file is processed.
\<close>

theorem checkpoint_loading:
  fixes loads :: decoder and w :: world and wx :: "string \<Rightarrow> exam_env"
  shows "load_checkpoint Absent = empty_checkpoint
    \<and> load_checkpoint (Unreadable e) = empty_checkpoint
    \<and> load_checkpoint Garbled = empty_checkpoint
    \<and> load_checkpoint (Holds j) = j
    \<and> processed_files_of empty_checkpoint = Inr (JArr [])
    \<and> processed_files_of (load_checkpoint (Holds (checkpoint_json ids))) = Inr ids
    \<and> (\<forall>c \<in> {Absent, Unreadable e, Garbled}.
          process_all_files_sequentially loads w names c a b l t
            = process_each loads w (select_files (sort names) a b l t) (fresh_run (JArr [])))
    \<and> read_checkpoint Absent = Inr empty_checkpoint
    \<and> read_checkpoint Garbled = Inr empty_checkpoint
    \<and> read_checkpoint (Holds j) = Inr j
    \<and> read_checkpoint (Unreadable e)
        = (if kind_of e = FileNotFoundError \<or> kind_of e = JSONDecodeError
           then Inr empty_checkpoint else Inl e)
    \<and> (kind_of e \<noteq> FileNotFoundError \<and> kind_of e \<noteq> JSONDecodeError \<longrightarrow>
          process_all_files loads wx agg_io packs (Unreadable e) agg start_idx end_idx limit
            = (fresh_exam_run JNull agg)\<lparr>raised := Some e\<rparr>)"
proof -
  have 1: "load_checkpoint Absent = empty_checkpoint"
    "load_checkpoint (Unreadable e) = empty_checkpoint"
    "load_checkpoint Garbled = empty_checkpoint"
    "load_checkpoint (Holds j) = j"
    by (simp_all add: load_checkpoint_def)
  have 2: "processed_files_of empty_checkpoint = Inr (JArr [])"
    by (simp add: processed_files_of_def empty_checkpoint_def)
  have 3: "processed_files_of (load_checkpoint (Holds (checkpoint_json ids))) = Inr ids"
    by (simp add: load_checkpoint_def processed_files_of_def checkpoint_json_def)
  have 4: "\<forall>c \<in> {Absent, Unreadable e, Garbled}.
      process_all_files_sequentially loads w names c a b l t
        = process_each loads w (select_files (sort names) a b l t) (fresh_run (JArr []))"
    using run_from_list [where xs = "[]"] 1 2 by simp
  have 5: "read_checkpoint Absent = Inr empty_checkpoint"
    "read_checkpoint Garbled = Inr empty_checkpoint"
    "read_checkpoint (Holds j) = Inr j"
    "read_checkpoint (Unreadable e)
        = (if kind_of e = FileNotFoundError \<or> kind_of e = JSONDecodeError
           then Inr empty_checkpoint else Inl e)"
    by (simp_all add: read_checkpoint_def)
  have 6: "kind_of e \<noteq> FileNotFoundError \<and> kind_of e \<noteq> JSONDecodeError \<longrightarrow>
      process_all_files loads wx agg_io packs (Unreadable e) agg start_idx end_idx limit
        = (fresh_exam_run JNull agg)\<lparr>raised := Some e\<rparr>"
    by (simp add: process_all_files_def read_checkpoint_def)
  show ?thesis
    using 1 2 3 4 5 6 by - (intro conjI; assumption)
qed

theorem checkpoint_loading_witness:
  "process_all_files_sequentially rejecting (always calm) [''cr_1.html'']
       (Unreadable (Raised PermissionError ''Permission denied'')) None None None False
     = process_each rejecting (always calm)
         (select_files (sort [''cr_1.html'']) None None None False) (fresh_run (JArr []))
   \<and> process_all_files rejecting (always calm_exam) (always Succeeds) [''question_1.html'']
       (Unreadable (Raised PermissionError ''Permission denied'')) Absent None None None
     = (fresh_exam_run JNull Absent)
         \<lparr>raised := Some (Raised PermissionError ''Permission denied'')\<rparr>"
  using checkpoint_loading [where e = "Raised PermissionError ''Permission denied''"
      and loads = rejecting and w = "always calm" and wx = "always calm_exam"
      and names = "[''cr_1.html'']" and packs = "[''question_1.html'']"
      and agg_io = "always Succeeds" and agg = Absent
      and a = None and b = None and l = None and t = False
      and start_idx = None and end_idx = None and limit = None]
  by simp

text \<open>
  C8 as the specification words it fails for the exam-pack driver: a checkpoint file
  that cannot be read for want of permission ends the run.
\<close>

theorem unreadable_checkpoint_counterexample:
  "read_checkpoint (Unreadable (Raised PermissionError ''Permission denied''))
     = Inl (Raised PermissionError ''Permission denied'')
   \<and> raised (process_all_files rejecting (always calm_exam) (always Succeeds)
       [''question_1.html''] (Unreadable (Raised PermissionError ''Permission denied''))
       Absent None None None)
     = Some (Raised PermissionError ''Permission denied'')
   \<and> journal (process_all_files rejecting (always calm_exam) (always Succeeds)
       [''question_1.html''] (Unreadable (Raised PermissionError ''Permission denied''))
       Absent None None None) = []"
  by code_simp

subsection \<open>An errored item is tried again\<close>

text \<open>
  C10. In a run over the distinct files of the source directory, started from a
  checkpoint that holds a list, an item whose iteration returns the status error is not
  in the list of processed identifiers at the end of the run, nor in the checkpoint
  file the run leaves; and in a later run that starts from that checkpoint file no
  iteration on the item returns the status skipped.
\<close>

theorem errored_item_is_retried:
  fixes loads loads' :: decoder and w w' :: world and names names' :: "string list"
    and a b l a' b' l' :: "int option" and t t' :: bool and d :: disk
  defines "r \<equiv> process_all_files_sequentially loads w names (files d CheckpointFile) a b l t"
  defines "r' \<equiv> process_all_files_sequentially loads' w' names'
      (files (replay d (trace r)) CheckpointFile) a' b' l' t'"
  assumes "loaded d = Inr (JArr xs)"
    and "distinct names" and "distinct names'"
    and "e \<in> set (journal r)" and "outcome e = Inr Errored"
  shows "(\<exists>ys. processed_files r = JArr ys \<and> JStr (item e) \<notin> set ys)
    \<and> JStr (item e) \<notin> set (checkpointed (replay d (trace r)))
    \<and> (\<forall>e' \<in> set (journal r'). item e' = item e \<longrightarrow> outcome e' \<noteq> Inr Skipped)"
proof -
  have cp: "processed_files_of (load_checkpoint (files d CheckpointFile)) = Inr (JArr xs)"
    using assms(3) by (simp add: loaded_def)
  from run_items_distinct [OF cp assms(4), of loads w a b l t]
  have fo: "follows xs (journal r)" and pf: "processed_files r = JArr (grown xs (journal r))"
    and di: "distinct (map item (journal r))"
    unfolding r_def by simp_all
  have new: "JStr (item e) \<notin> set xs"
    using fo assms(6) by (rule not_listed_when_attempted) (simp add: assms(7))
  have 1: "JStr (item e) \<notin> set (grown xs (journal r))"
    using di assms(6) _ new by (rule not_grown_unless_processed) (simp add: assms(7))
  have "lists (grown xs (journal r)) (replay d (trace r))"
    unfolding trace_def using fo lists_loaded [OF assms(3)] by (rule journal_lists)
  then obtain zs where zs: "loaded (replay d (trace r)) = Inr (JArr zs)"
    "set zs \<subseteq> set (grown xs (journal r))"
    by (auto simp: lists_def)
  then have 2: "JStr (item e) \<notin> set (checkpointed (replay d (trace r)))"
    using 1 by (auto simp: checkpointed_def)
  have cp': "processed_files_of (load_checkpoint (files (replay d (trace r)) CheckpointFile))
      = Inr (JArr zs)"
    using zs(1) by (simp add: loaded_def)
  from run_items_distinct [OF cp' assms(5), of loads' w' a' b' l' t']
  have fo': "follows zs (journal r')" and di': "distinct (map item (journal r'))"
    unfolding r'_def by simp_all
  have 3: "outcome e' \<noteq> Inr Skipped" if "e' \<in> set (journal r')" "item e' = item e" for e'
    using fo' di' that(1)
  proof (rule not_skipped_when_new)
    show "JStr (item e') \<notin> set zs"
      using zs(2) 1 that(2) by auto
  qed
  from pf 1 have "\<exists>ys. processed_files r = JArr ys \<and> JStr (item e) \<notin> set ys"
    by simp
  with 2 3 show ?thesis by simp
qed

theorem errored_item_is_retried_witness:
  "\<lparr>item = ''cr_1.html'',
     effects = map (Requested ''cr_1.html'') [0, 1, 2, 3] @
       [Logged ''2025-01-01 00:00:00'' ''cr_1.html''
          (JStr ''API request failed after 3 retries: timed out'')],
     outcome = Inr Errored\<rparr>
     \<in> set (journal (process_all_files_sequentially rejecting (always down) [''cr_1.html'']
           (files blank CheckpointFile) None None None False))
   \<and> processed_files (process_all_files_sequentially rejecting (always down) [''cr_1.html'']
           (files blank CheckpointFile) None None None False) = JArr []
   \<and> JStr ''cr_1.html'' \<notin> set (checkpointed (replay blank (trace
        (process_all_files_sequentially rejecting (always down) [''cr_1.html'']
           (files blank CheckpointFile) None None None False))))
   \<and> map outcome (journal (process_all_files_sequentially rejecting (always calm)
        [''cr_1.html'']
        (files (replay blank (trace
           (process_all_files_sequentially rejecting (always down) [''cr_1.html'']
              (files blank CheckpointFile) None None None False))) CheckpointFile)
        None None None False)) = [Inr Processed]"
proof -
  let ?e = "\<lparr>item = ''cr_1.html'',
     effects = map (Requested ''cr_1.html'') [0, 1, 2, 3] @
       [Logged ''2025-01-01 00:00:00'' ''cr_1.html''
          (JStr ''API request failed after 3 retries: timed out'')],
     outcome = Inr Errored\<rparr>"
  have h1: "loaded blank = Inr (JArr [])"
    by code_simp
  have h2: "distinct [''cr_1.html'']"
    by simp
  have j: "journal (process_all_files_sequentially rejecting (always down) [''cr_1.html'']
           (files blank CheckpointFile) None None None False) = [?e]"
    by code_simp
  then have h3: "?e \<in> set (journal (process_all_files_sequentially rejecting (always down)
      [''cr_1.html''] (files blank CheckpointFile) None None None False))"
    by simp
  have h4: "outcome ?e = Inr Errored"
    by simp
  have p: "processed_files (process_all_files_sequentially rejecting (always down) [''cr_1.html'']
           (files blank CheckpointFile) None None None False) = JArr []"
    by code_simp
  have q: "map outcome (journal (process_all_files_sequentially rejecting (always calm)
        [''cr_1.html'']
        (files (replay blank (trace
           (process_all_files_sequentially rejecting (always down) [''cr_1.html'']
              (files blank CheckpointFile) None None None False))) CheckpointFile)
        None None None False)) = [Inr Processed]"
    by code_simp
  show ?thesis
    using errored_item_is_retried [where d = blank and xs = "[]" and e = ?e
        and names = "[''cr_1.html'']" and names' = "[''cr_1.html'']"
        and loads = rejecting and w = "always down" and loads' = rejecting and w' = "always calm"
        and a = None and b = None and l = None and t = False
        and a' = None and b' = None and l' = None and t' = False, OF h1 h2 h2 h3 h4] h3 p q
    by simp
qed

subsection \<open>Validity of a persisted result\<close>

text \<open>
  C9. A persisted extraction result is classified as valid exactly when it contains an
  analysis that carries no error indicator and in which each of \<open>question\<close>, \<open>options\<close>,
  \<open>correct_answer\<close> and \<open>explanation\<close> is present.
\<close>

theorem is_valid_result_iff:
  assumes "persisted_result result"
  shows "is_valid_result result = Inr (valid_by_spec result)"
proof (cases result)
  case (JObj d)
  show ?thesis
  proof (cases "map_of d ''analysis''")
    case None
    then have "''analysis'' \<notin> keys d"
      by (simp add: keys_def map_of_eq_None_iff)
    with None JObj show ?thesis
      by (simp add: is_valid_result_def valid_by_spec_def)
  next
    case (Some a)
    then have k: "''analysis'' \<in> keys d"
      by (metis keys_def map_of_eq_None_iff option.distinct(1))
    then have ne: "d \<noteq> []"
      by (auto simp: keys_def)
    from assms JObj Some obtain fs where a: "a = JObj fs"
      by (cases a) (simp_all add: persisted_result_def)
    show ?thesis
      using JObj Some k ne a
      by (simp add: is_valid_result_def valid_by_spec_def required_keys_def split: bool.splits)
  qed
qed (use assms in \<open>simp_all add: persisted_result_def is_valid_result_def valid_by_spec_def\<close>)

theorem is_valid_result_iff_witness:
  "persisted_result (JObj [(''question_number'', JStr ''12''),
      (''analysis'', JObj [(''question'', JStr ''q''), (''options'', JObj []),
         (''correct_answer'', JStr ''B''), (''explanation'', JStr ''e'')])])
   \<and> is_valid_result (JObj [(''question_number'', JStr ''12''),
      (''analysis'', JObj [(''question'', JStr ''q''), (''options'', JObj []),
         (''correct_answer'', JStr ''B''), (''explanation'', JStr ''e'')])]) = Inr True
   \<and> persisted_result (JObj [(''question_number'', JStr ''12''),
      (''analysis'', JObj [(''error'', JStr ''x''), (''question'', JStr ''q''),
         (''options'', JObj []), (''correct_answer'', JStr ''B''),
         (''explanation'', JStr ''e'')])])
   \<and> is_valid_result (JObj [(''question_number'', JStr ''12''),
      (''analysis'', JObj [(''error'', JStr ''x''), (''question'', JStr ''q''),
         (''options'', JObj []), (''correct_answer'', JStr ''B''),
         (''explanation'', JStr ''e'')])]) = Inr False"
proof -
  let ?good = "JObj [(''question_number'', JStr ''12''),
      (''analysis'', JObj [(''question'', JStr ''q''), (''options'', JObj []),
         (''correct_answer'', JStr ''B''), (''explanation'', JStr ''e'')])]"
  let ?bad = "JObj [(''question_number'', JStr ''12''),
      (''analysis'', JObj [(''error'', JStr ''x''), (''question'', JStr ''q''),
         (''options'', JObj []), (''correct_answer'', JStr ''B''),
         (''explanation'', JStr ''e'')])]"
  have p1: "persisted_result ?good" and p2: "persisted_result ?bad"
    by (simp_all add: persisted_result_def)
  have v1: "valid_by_spec ?good" and v2: "\<not> valid_by_spec ?bad"
    by (simp_all add: valid_by_spec_def required_keys_def keys_def)
  show ?thesis
    using is_valid_result_iff [OF p1] is_valid_result_iff [OF p2] p1 p2 v1 v2 by simp
qed

end
